theory Spec2Isabelle
  imports Main "HOL-Library.Word"
begin

section \<open>Errors, callables, allocators and the machine\<close>

text \<open>
  The library is C++. What a function does beyond returning a value is made explicit:
  a failed \<^verbatim>\<open>assert\<close> (only in a build without \<^verbatim>\<open>NDEBUG\<close>, the flag \<open>debug\<close> of the
  model), an exception leaving the function, and a step the language leaves undefined
  (a dangling pointer, a signed overflow) are values of \<open>error\<close>.
\<close>

datatype error =
    Assertion_failed string
  | Exception_thrown
  | Undefined_behaviour

text \<open>
  A function object \<open>F\<close>, described by what the templates ask of its type and by what
  its members do when they run: \<open>repr\<close> is the object representation
  (\<^verbatim>\<open>sizeof(F)\<close> is its length), \<open>alignment\<close> is \<^verbatim>\<open>alignof(F)\<close>, \<open>embedded_size\<close> is
  \<^verbatim>\<open>sizeof(fun_without_alloc<F>)\<close>, \<open>is_null\<close> is the negation of \<^verbatim>\<open>not_null(f)\<close>,
  \<open>ctor_throws\<close> says that constructing the stored copy from the argument throws and
  \<open>call_throws\<close> that the call operator throws.
\<close>

record callable =
  repr :: "8 word list"
  alignment :: nat
  embedded_size :: nat
  nothrow_move_constructible :: bool
  trivially_copyable :: bool
  is_null :: bool
  ctor_throws :: bool
  call_throws :: bool

text \<open>
  The two overloads of \<^verbatim>\<open>allocate_unique\<close> distinguish \<^verbatim>\<open>std::allocator<X>\<close> from
  every other allocator type.
\<close>

datatype allocator = Std_allocator | User_allocator nat

type_synonym addr = nat

datatype event =
    Allocate allocator addr
  | Deallocate allocator addr
  | Operator_new addr
  | Operator_delete addr
  | Construct callable
  | Destroy callable
  | Invoke callable

text \<open>
  The free store holds the nodes \<^verbatim>\<open>(Alloc, F)\<close> (a \<^verbatim>\<open>fun_with_alloc<Alloc, F>\<close> or a
  \<^verbatim>\<open>std::tuple<Alloc, F>\<close>); \<open>events\<close> records, in order, every allocation,
  deallocation, construction, destruction and call.
\<close>

record machine =
  heap :: "addr \<rightharpoonup> allocator \<times> callable"
  fresh :: addr
  events :: "event list"

definition machine_init :: machine where
  "machine_init = \<lparr>heap = Map.empty, fresh = 0, events = []\<rparr>"

definition emit :: "event list \<Rightarrow> machine \<Rightarrow> machine" where
  "emit es m = m\<lparr>events := events m @ es\<rparr>"

datatype deleter = Allocator_deleter allocator | Default_delete

text \<open>
  \<^verbatim>\<open>make_allocator_deleter<T>(alloc)\<close> applied to a non-null pointer: destroy, then
  deallocate through the (rebound) copy of \<open>alloc\<close>.
\<close>

definition make_allocator_deleter :: "allocator \<Rightarrow> addr \<Rightarrow> machine \<Rightarrow> (error + unit) \<times> machine" where
  "make_allocator_deleter alloc p m =
     (case heap m p of
        None \<Rightarrow> (Inl Undefined_behaviour, m)
      | Some (a, f) \<Rightarrow>
          (Inr (), emit [Destroy f, Deallocate alloc p] (m\<lparr>heap := (heap m)(p := None)\<rparr>)))"



text \<open>
  \<^verbatim>\<open>allocate_unique<T>(alloc, args...)\<close> with \<open>args = (node_alloc, f)\<close>. The overload for
  \<^verbatim>\<open>std::allocator<X>\<close> is \<^verbatim>\<open>std::make_unique<T>(args...)\<close>; the general one allocates
  through a rebound copy of \<open>alloc\<close>, constructs, and gives the storage back when the
  construction throws.
\<close>

definition allocate_unique ::
  "allocator \<Rightarrow> allocator \<times> callable \<Rightarrow> machine \<Rightarrow> (error + addr \<times> deleter) \<times> machine" where
  "allocate_unique alloc node m =
     (let p = fresh m; m1 = m\<lparr>fresh := Suc (fresh m)\<rparr> in
      case alloc of
        Std_allocator \<Rightarrow>
          (if ctor_throws (snd node)
           then (Inl Exception_thrown, emit [Operator_new p, Operator_delete p] m1)
           else (Inr (p, Default_delete),
                 emit [Operator_new p, Construct (snd node)] (m1\<lparr>heap := (heap m1)(p \<mapsto> node)\<rparr>)))
      | User_allocator n \<Rightarrow>
          (if ctor_throws (snd node)
           then (Inl Exception_thrown, emit [Allocate alloc p, Deallocate alloc p] m1)
           else (Inr (p, Allocator_deleter alloc),
                 emit [Allocate alloc p, Construct (snd node)] (m1\<lparr>heap := (heap m1)(p \<mapsto> node)\<rparr>))))"

section \<open>The task payload: \<^verbatim>\<open>detail::work_item\<close>\<close>

text \<open>
  \<^verbatim>\<open>_target\<close> is null, the address of the object's own \<^verbatim>\<open>_buffer\<close>, or the address of
  a node on the free store. \<open>buffer\<close> is the \<^verbatim>\<open>fun_without_alloc<F>\<close> living in
  \<^verbatim>\<open>_buffer\<close>, if any.
\<close>

datatype target = Null | Embedded | Heap_node addr

record work_item =
  buffer :: "callable option"
  target :: target

definition work_item_default :: work_item where
  "work_item_default = \<lparr>buffer = None, target = Null\<rparr>"

definition operator_bool :: "work_item \<Rightarrow> bool" where
  "operator_bool w = (target w \<noteq> Null)"

definition is_embedded :: "work_item \<Rightarrow> bool" where
  "is_embedded w = (target w = Embedded)"

text \<open>
  \<^verbatim>\<open>can_embed\<close> of \<^verbatim>\<open>emplace\<close>; \<open>buffer_size\<close> is \<^verbatim>\<open>sizeof(_buffer)\<close>, the size of
  \<^verbatim>\<open>std::aligned_storage_t<3 * sizeof(void*)>\<close>.
\<close>

definition can_embed :: "nat \<Rightarrow> callable \<Rightarrow> bool" where
  "can_embed buffer_size f = (embedded_size f \<le> buffer_size \<and> nothrow_move_constructible f)"

definition emplace_impl_embed :: "callable \<Rightarrow> machine \<Rightarrow> (error + work_item) \<times> machine" where
  "emplace_impl_embed f m =
     (if ctor_throws f then (Inl Exception_thrown, m)
      else (Inr \<lparr>buffer = Some f, target = Embedded\<rparr>, emit [Construct f] m))"

definition emplace_impl_alloc :: "allocator \<Rightarrow> callable \<Rightarrow> machine \<Rightarrow> (error + work_item) \<times> machine" where
  "emplace_impl_alloc alloc f m =
     (case allocate_unique alloc (alloc, f) m of
        (Inl e, m') \<Rightarrow> (Inl e, m')
      | (Inr (p, d), m') \<Rightarrow> (Inr \<lparr>buffer = None, target = Heap_node p\<rparr>, m'))"

definition emplace :: "nat \<Rightarrow> allocator \<Rightarrow> callable \<Rightarrow> machine \<Rightarrow> (error + work_item) \<times> machine" where
  "emplace buffer_size alloc f m =
     (if can_embed buffer_size f then emplace_impl_embed f m else emplace_impl_alloc alloc f m)"

text \<open>The constructor \<^verbatim>\<open>work_item(std::allocator_arg_t, const Alloc&, F&&)\<close>.\<close>

definition work_item_ctor ::
  "bool \<Rightarrow> nat \<Rightarrow> allocator \<Rightarrow> callable \<Rightarrow> machine \<Rightarrow> (error + work_item) \<times> machine" where
  "work_item_ctor debug buffer_size alloc f m =
     (if debug \<and> is_null f then (Inl (Assertion_failed ''function is NULL''), m)
      else emplace buffer_size alloc f m)"

text \<open>\<^verbatim>\<open>fun_with_alloc::destroy_dealloc\<close>, through the allocator copy held in the node.\<close>

definition destroy_dealloc :: "addr \<Rightarrow> machine \<Rightarrow> (error + unit) \<times> machine" where
  "destroy_dealloc p m =
     (case heap m p of
        None \<Rightarrow> (Inl Undefined_behaviour, m)
      | Some (a, f) \<Rightarrow>
          (Inr (), emit [Destroy f, Deallocate a p] (m\<lparr>heap := (heap m)(p := None)\<rparr>)))"

text \<open>The destructor \<^verbatim>\<open>~work_item\<close>.\<close>

definition work_item_dtor :: "work_item \<Rightarrow> machine \<Rightarrow> (error + unit) \<times> machine" where
  "work_item_dtor w m =
     (case target w of
        Null \<Rightarrow> (Inr (), m)
      | Embedded \<Rightarrow>
          (case buffer w of
             None \<Rightarrow> (Inl Undefined_behaviour, m)
           | Some f \<Rightarrow> (Inr (), emit [Destroy f] m))
      | Heap_node p \<Rightarrow> destroy_dealloc p m)"

text \<open>The call of the stored function object, \<^verbatim>\<open>move(f)()\<close>.\<close>

definition call_callable :: "callable \<Rightarrow> machine \<Rightarrow> (error + unit) \<times> machine" where
  "call_callable f m =
     (if call_throws f then Inl Exception_thrown else Inr (), emit [Invoke f] m)"

text \<open>
  \<^verbatim>\<open>work_item::operator()() &&\<close> is \<^verbatim>\<open>move(*_target)()\<close>; the object itself is returned
  as the call leaves it.
\<close>

definition work_item_call :: "work_item \<Rightarrow> machine \<Rightarrow> (error + unit) \<times> work_item \<times> machine" where
  "work_item_call w m =
     (case target w of
        Null \<Rightarrow> (Inl Undefined_behaviour, w, m)
      | Embedded \<Rightarrow>
          (case buffer w of
             None \<Rightarrow> (Inl Undefined_behaviour, w, m)
           | Some f \<Rightarrow> (fst (call_callable f m), w, snd (call_callable f m)))
      | Heap_node p \<Rightarrow>
          (case heap m p of
             None \<Rightarrow> (Inl Undefined_behaviour, w, m)
           | Some (a, f) \<Rightarrow> (fst (call_callable f m), w, snd (call_callable f m))))"

text \<open>
  \<^verbatim>\<open>work_item::operator=(work_item&&)\<close>, returning the destination and the source as
  the assignment leaves them. For an embedded source \<^verbatim>\<open>move_and_destroy\<close> move-constructs
  the \<^verbatim>\<open>fun_without_alloc\<close> in the destination's buffer and destroys the source's.
\<close>

definition move_assign :: "bool \<Rightarrow> work_item \<Rightarrow> work_item \<Rightarrow> error + work_item \<times> work_item" where
  "move_assign debug this other =
     (if debug \<and> target this \<noteq> Null
        then Inl (Assertion_failed ''must move to empty work_item'')
      else if debug \<and> target other = Null
        then Inl (Assertion_failed ''moved from work_item twice'')
      else if is_embedded other then
        (case buffer other of
           None \<Rightarrow> Inl Undefined_behaviour
         | Some f \<Rightarrow> Inr (\<lparr>buffer = Some f, target = Embedded\<rparr>, \<lparr>buffer = None, target = Null\<rparr>))
      else Inr (this\<lparr>target := target other\<rparr>, other\<lparr>target := Null\<rparr>))"

text \<open>The move constructor: \<^verbatim>\<open>_target = nullptr; *this = move(other);\<close>.\<close>

definition move_ctor :: "bool \<Rightarrow> work_item \<Rightarrow> error + work_item \<times> work_item" where
  "move_ctor debug other = move_assign debug \<lparr>buffer = None, target = Null\<rparr> other"

section \<open>The per-worker queue: \<^verbatim>\<open>thread_pool_task_queue\<close>\<close>

text \<open>
  \<open>queue\<close> is \<^verbatim>\<open>_queue\<close>, \<open>is_done\<close> is \<^verbatim>\<open>_done\<close>, and \<open>ready\<close> records the
  notifications sent on the condition variable \<^verbatim>\<open>_ready\<close>. Whether a
  \<^verbatim>\<open>std::try_to_lock\<close> acquires \<^verbatim>\<open>_mutex\<close> depends on the other threads: it is the
  argument \<open>locked\<close> of the two try operations. A blocking lock always acquires.
\<close>

datatype signal = Notify_one | Notify_all

record thread_pool_task_queue =
  queue :: "work_item list"
  is_done :: bool
  ready :: "signal list"

definition task_queue_init :: thread_pool_task_queue where
  "task_queue_init = \<lparr>queue = [], is_done = False, ready = []\<rparr>"

definition tq_done :: "thread_pool_task_queue \<Rightarrow> thread_pool_task_queue" where
  "tq_done q = q\<lparr>is_done := True, ready := ready q @ [Notify_all]\<rparr>"

text \<open>
  \<^verbatim>\<open>f = move(_queue.front()); _queue.pop_front();\<close> The front element is empty after
  the assignment, so its destructor does nothing.
\<close>

definition take_front ::
  "bool \<Rightarrow> thread_pool_task_queue \<Rightarrow> work_item \<Rightarrow> error + bool \<times> thread_pool_task_queue \<times> work_item" where
  "take_front debug q f =
     (case queue q of
        [] \<Rightarrow> Inl Undefined_behaviour
      | front # rest \<Rightarrow>
          (case move_assign debug f front of
             Inl e \<Rightarrow> Inl e
           | Inr (f', front') \<Rightarrow> Inr (True, q\<lparr>queue := rest\<rparr>, f')))"

definition tq_try_pop ::
  "bool \<Rightarrow> bool \<Rightarrow> thread_pool_task_queue \<Rightarrow> work_item \<Rightarrow> error + bool \<times> thread_pool_task_queue \<times> work_item" where
  "tq_try_pop debug locked q f =
     (if \<not> locked \<or> queue q = [] then Inr (False, q, f) else take_front debug q f)"

text \<open>\<^verbatim>\<open>_queue.emplace_back(move(f))\<close> followed by \<^verbatim>\<open>_ready.notify_one()\<close>.\<close>

definition emplace_back_notify ::
  "bool \<Rightarrow> thread_pool_task_queue \<Rightarrow> work_item \<Rightarrow> error + thread_pool_task_queue \<times> work_item" where
  "emplace_back_notify debug q f =
     (case move_ctor debug f of
        Inl e \<Rightarrow> Inl e
      | Inr (new, f') \<Rightarrow> Inr (q\<lparr>queue := queue q @ [new], ready := ready q @ [Notify_one]\<rparr>, f'))"

definition tq_try_push ::
  "bool \<Rightarrow> bool \<Rightarrow> thread_pool_task_queue \<Rightarrow> work_item \<Rightarrow> error + bool \<times> thread_pool_task_queue \<times> work_item" where
  "tq_try_push debug locked q f =
     (if \<not> locked then Inr (False, q, f)
      else case emplace_back_notify debug q f of
             Inl e \<Rightarrow> Inl e
           | Inr (q', f') \<Rightarrow> Inr (True, q', f'))"

definition tq_push ::
  "bool \<Rightarrow> thread_pool_task_queue \<Rightarrow> work_item \<Rightarrow> error + thread_pool_task_queue \<times> work_item" where
  "tq_push debug q f = emplace_back_notify debug q f"

text \<open>
  What the other threads do to a queue while a thread waits in \<^verbatim>\<open>_ready.wait(lock)\<close>:
  a push (either kind) that succeeded, a pop (either kind) that took the front, and
  \<^verbatim>\<open>done()\<close>. Each wake-up of the waiting thread comes after one list of such steps (an
  empty list is a spurious wake-up).
\<close>

datatype interference = Other_push work_item | Other_take | Other_done

fun interfere :: "interference \<Rightarrow> thread_pool_task_queue \<Rightarrow> thread_pool_task_queue" where
  "interfere (Other_push w) q = q\<lparr>queue := queue q @ [w], ready := ready q @ [Notify_one]\<rparr>"
| "interfere Other_take q = q\<lparr>queue := tl (queue q)\<rparr>"
| "interfere Other_done q = tq_done q"

text \<open>
  \<^verbatim>\<open>while(_queue.empty() && !_done) _ready.wait(lock);\<close> The result is \<open>None\<close> when the
  thread is never woken with the condition false: it waits forever.
\<close>

fun wait_ready :: "interference list list \<Rightarrow> thread_pool_task_queue \<Rightarrow> thread_pool_task_queue option" where
  "wait_ready [] q = (if queue q = [] \<and> \<not> is_done q then None else Some q)"
| "wait_ready (steps # env) q =
     (if queue q = [] \<and> \<not> is_done q then wait_ready env (fold interfere steps q) else Some q)"

definition tq_pop ::
  "bool \<Rightarrow> interference list list \<Rightarrow> thread_pool_task_queue \<Rightarrow> work_item
   \<Rightarrow> (error + bool \<times> thread_pool_task_queue \<times> work_item) option" where
  "tq_pop debug env q f =
     (case wait_ready env q of
        None \<Rightarrow> None
      | Some q1 \<Rightarrow>
          Some (if queue q1 = [] then Inr (False, q1, f) else take_front debug q1 f))"

section \<open>The pool: \<^verbatim>\<open>basic_thread_pool\<close> and \<^verbatim>\<open>thread_pool\<close>\<close>

text \<open>
  \<^verbatim>\<open>unsigned\<close> is a 32-bit word. \<open>threads\<close> holds, for each thread handle, the index
  the factory was called with.
\<close>

record basic_thread_pool =
  num_threads :: "32 word"
  queues :: "thread_pool_task_queue list"
  threads :: "nat list"
  next_thread :: "32 word"

text \<open>
  The constructor \<^verbatim>\<open>basic_thread_pool(ThreadFactory f, unsigned num_threads)\<close> with
  \<^verbatim>\<open>start\<close>: \<^verbatim>\<open>_num_threads(std::max(1u, num_threads))\<close>, \<^verbatim>\<open>_queues{_num_threads}\<close>, and
  one call of the factory for each \<open>i\<close> below \<^verbatim>\<open>_num_threads\<close>. The factory is taken to
  return a handle each time.
\<close>

definition basic_thread_pool_ctor :: "32 word \<Rightarrow> basic_thread_pool" where
  "basic_thread_pool_ctor n =
     (let k = max 1 n in
      \<lparr>num_threads = k,
       queues = replicate (unat k) task_queue_init,
       threads = [0 ..< unat k],
       next_thread = 0\<rparr>)"

text \<open>
  \<^verbatim>\<open>thread_pool::thread_pool(int num_threads) : basic_thread_pool(make_thread) { }\<close>: the
  base is constructed with the factory alone, so its second parameter takes its default
  argument \<^verbatim>\<open>std::thread::hardware_concurrency()\<close>, here \<open>hardware_concurrency\<close>.
\<close>

definition thread_pool_ctor :: "32 word \<Rightarrow> int \<Rightarrow> basic_thread_pool" where
  "thread_pool_ctor hardware_concurrency n = basic_thread_pool_ctor hardware_concurrency"

text \<open>
  \<^verbatim>\<open>java_shared_native_pool(int num_threads)\<close> makes its pool with
  \<^verbatim>\<open>(make_java_attached_thread, num_threads)\<close>; the \<^verbatim>\<open>int\<close> converts to \<^verbatim>\<open>unsigned\<close>.
\<close>

definition java_shared_native_pool_ctor :: "int \<Rightarrow> basic_thread_pool" where
  "java_shared_native_pool_ctor n = basic_thread_pool_ctor (word_of_int n)"

text \<open>The calls a pool function makes on its queues, and the calls of payloads.\<close>

datatype call =
    Try_push nat bool
  | Push nat
  | Try_pop nat bool
  | Pop nat bool
  | Call_work work_item

text \<open>
  The loop of \<^verbatim>\<open>schedule(work_t&&)\<close>: \<^verbatim>\<open>for(unsigned i = 0; i < _num_threads; ++i)\<close> with
  \<^verbatim>\<open>_queues[(thread + i) % _num_threads].try_push(f)\<close>. \<open>acq i\<close> says whether the
  try-lock of attempt \<open>i\<close> succeeds.
\<close>

function schedule_loop ::
  "bool \<Rightarrow> (nat \<Rightarrow> bool) \<Rightarrow> 32 word \<Rightarrow> 32 word \<Rightarrow> thread_pool_task_queue list \<Rightarrow> work_item
   \<Rightarrow> 32 word \<Rightarrow> call list
   \<Rightarrow> error + bool \<times> thread_pool_task_queue list \<times> work_item \<times> call list" where
  "schedule_loop debug acq n thread qs f i tr =
     (if i < n then
        (case tq_try_push debug (acq (unat i)) (qs ! unat ((thread + i) mod n)) f of
           Inl e \<Rightarrow> Inl e
         | Inr (ok, q', f') \<Rightarrow>
             if ok
             then Inr (True, qs[unat ((thread + i) mod n) := q'], f',
                       tr @ [Try_push (unat ((thread + i) mod n)) True])
             else schedule_loop debug acq n thread (qs[unat ((thread + i) mod n) := q']) f' (i + 1)
                    (tr @ [Try_push (unat ((thread + i) mod n)) False]))
      else Inr (False, qs, f, tr))"
  by pat_completeness auto
termination
proof (relation "measure (\<lambda>(debug, acq, n, thread, qs, f, i, tr). unat n - unat i)")
  show "wf (measure (\<lambda>(debug, acq, n, thread, qs, f, i, tr). unat n - unat i))"
    by simp
next
  fix debug :: bool and acq :: "nat \<Rightarrow> bool" and n thread :: "32 word"
    and qs :: "thread_pool_task_queue list" and f :: work_item and i :: "32 word"
    and tr :: "call list" and x2 x y xa ya
  assume "i < n"
  then have "unat (i + 1) = Suc (unat i)"
    by unat_arith
  with \<open>i < n\<close> have "unat n - unat (i + 1) < unat n - unat i"
    by (simp add: word_less_nat_alt)
  then show "((debug, acq, n, thread, qs[unat ((thread + i) mod n) := x], ya, i + 1,
               tr @ [Try_push (unat ((thread + i) mod n)) False]),
              debug, acq, n, thread, qs, f, i, tr)
             \<in> measure (\<lambda>(debug, acq, n, thread, qs, f, i, tr). unat n - unat i)"
    by simp
qed

declare schedule_loop.simps [simp del]

text \<open>
  \<^verbatim>\<open>schedule(work_t&&)\<close>: \<^verbatim>\<open>auto thread = _next_thread++;\<close> on the atomic counter, the
  loop, then \<^verbatim>\<open>_queues[thread % _num_threads].push(move(f))\<close>.
\<close>

definition schedule ::
  "bool \<Rightarrow> (nat \<Rightarrow> bool) \<Rightarrow> basic_thread_pool \<Rightarrow> work_item
   \<Rightarrow> error + basic_thread_pool \<times> work_item \<times> call list" where
  "schedule debug acq p f =
     (let thread = next_thread p;
          n = num_threads p;
          p1 = p\<lparr>next_thread := next_thread p + 1\<rparr>
      in case schedule_loop debug acq n thread (queues p1) f 0 [] of
           Inl e \<Rightarrow> Inl e
         | Inr (ok, qs, f', tr) \<Rightarrow>
             if ok then Inr (p1\<lparr>queues := qs\<rparr>, f', tr)
             else (case tq_push debug (qs ! unat (thread mod n)) f' of
                     Inl e \<Rightarrow> Inl e
                   | Inr (q', f'') \<Rightarrow>
                       Inr (p1\<lparr>queues := qs[unat (thread mod n) := q']\<rparr>, f'',
                            tr @ [Push (unat (thread mod n))])))"

text \<open>
  The try loop of \<^verbatim>\<open>run(int index)\<close>:
  \<^verbatim>\<open>for(int i = 0; i < _num_threads * rounds; ++i)\<close> with
  \<^verbatim>\<open>_queues[(index + i) % _num_threads].try_pop(f)\<close> and \<^verbatim>\<open>rounds = 8\<close>. The bound is an
  \<^verbatim>\<open>unsigned\<close> product and wraps; \<open>i\<close> and \<open>index + i\<close> are \<^verbatim>\<open>int\<close>, converted to
  \<^verbatim>\<open>unsigned\<close> where they meet one; an \<^verbatim>\<open>int\<close> result above \<^verbatim>\<open>INT_MAX\<close> is undefined.
\<close>

definition INT_MAX :: nat where
  "INT_MAX = 2 ^ 31 - 1"

function try_pop_loop ::
  "bool \<Rightarrow> (nat \<Rightarrow> bool) \<Rightarrow> 32 word \<Rightarrow> nat \<Rightarrow> thread_pool_task_queue list \<Rightarrow> work_item
   \<Rightarrow> nat \<Rightarrow> call list
   \<Rightarrow> error + thread_pool_task_queue list \<times> work_item \<times> call list" where
  "try_pop_loop debug acq n index qs f i tr =
     (if (word_of_nat i :: 32 word) < n * 8 then
        (if INT_MAX < index + i then Inl Undefined_behaviour
         else
           (case tq_try_pop debug (acq i) (qs ! unat ((word_of_nat (index + i) :: 32 word) mod n)) f of
              Inl e \<Rightarrow> Inl e
            | Inr (ok, q', f') \<Rightarrow>
                if ok
                then Inr (qs[unat ((word_of_nat (index + i) :: 32 word) mod n) := q'], f',
                          tr @ [Try_pop (unat ((word_of_nat (index + i) :: 32 word) mod n)) True])
                else if INT_MAX \<le> i then Inl Undefined_behaviour
                else try_pop_loop debug acq n index
                       (qs[unat ((word_of_nat (index + i) :: 32 word) mod n) := q']) f' (Suc i)
                       (tr @ [Try_pop (unat ((word_of_nat (index + i) :: 32 word) mod n)) False])))
      else Inr (qs, f, tr))"
  by pat_completeness auto
termination
  by (relation "measure (\<lambda>(debug, acq, n, index, qs, f, i, tr). INT_MAX - i)") auto

declare try_pop_loop.simps [simp del]

text \<open>
  One turn of \<^verbatim>\<open>while(true)\<close> in \<^verbatim>\<open>run\<close>: a fresh \<^verbatim>\<open>work_t f\<close>, the try loop,
  \<^verbatim>\<open>if(!f && !_queues[index].pop(f)) break;\<close>, \<^verbatim>\<open>move(f)();\<close>, and the destructor of
  \<open>f\<close> at the end of the block. The result is \<open>None\<close> when the blocking pop never
  returns; \<open>Inr True\<close> continues the loop and \<open>Inr False\<close> is the \<^verbatim>\<open>break\<close>. An
  exception of the payload leaves the thread function.
\<close>

definition call_and_destroy ::
  "basic_thread_pool \<Rightarrow> work_item \<Rightarrow> machine \<Rightarrow> call list
   \<Rightarrow> (error + bool) \<times> basic_thread_pool \<times> machine \<times> call list" where
  "call_and_destroy p f m tr =
     (case work_item_call f m of
        (Inl e, f', m') \<Rightarrow> (Inl e, p, m', tr @ [Call_work f])
      | (Inr u, f', m') \<Rightarrow>
          (case work_item_dtor f' m' of
             (Inl e, m'') \<Rightarrow> (Inl e, p, m'', tr @ [Call_work f])
           | (Inr u', m'') \<Rightarrow> (Inr True, p, m'', tr @ [Call_work f])))"

definition run_body ::
  "bool \<Rightarrow> (nat \<Rightarrow> bool) \<Rightarrow> interference list list \<Rightarrow> nat \<Rightarrow> basic_thread_pool \<Rightarrow> machine
   \<Rightarrow> ((error + bool) \<times> basic_thread_pool \<times> machine \<times> call list) option" where
  "run_body debug acq env index p m =
     (case try_pop_loop debug acq (num_threads p) index (queues p) work_item_default 0 [] of
        Inl e \<Rightarrow> Some (Inl e, p, m, [])
      | Inr (qs, f, tr) \<Rightarrow>
          if operator_bool f then Some (call_and_destroy (p\<lparr>queues := qs\<rparr>) f m tr)
          else
            (case tq_pop debug env (qs ! index) f of
               None \<Rightarrow> None
             | Some (Inl e) \<Rightarrow> Some (Inl e, p\<lparr>queues := qs\<rparr>, m, tr)
             | Some (Inr (ok, q', f')) \<Rightarrow>
                 if \<not> ok
                 then (case work_item_dtor f' m of
                         (Inl e, m') \<Rightarrow>
                           Some (Inl e, p\<lparr>queues := qs[index := q']\<rparr>, m', tr @ [Pop index False])
                       | (Inr u, m') \<Rightarrow>
                           Some (Inr False, p\<lparr>queues := qs[index := q']\<rparr>, m', tr @ [Pop index False]))
                 else Some (call_and_destroy (p\<lparr>queues := qs[index := q']\<rparr>) f' m
                              (tr @ [Pop index True]))))"

text \<open>
  What the other threads do to the queues of the pool between two turns of a worker:
  a list of steps, each on the queue of the given index.
\<close>

definition interfere_at ::
  "nat \<times> interference \<Rightarrow> thread_pool_task_queue list \<Rightarrow> thread_pool_task_queue list" where
  "interfere_at s qs = (if fst s < length qs then qs[fst s := interfere (snd s) (qs ! fst s)] else qs)"

text \<open>
  \<^verbatim>\<open>run(int index)\<close>. Each element of the schedule describes one turn of the loop: what
  the other threads did before it, the outcome of each try-lock in it, and the wake-ups
  of its blocking pop. The result is \<open>None\<close> when the worker has not left the loop by the
  end of the schedule.
\<close>

fun run ::
  "bool \<Rightarrow> ((nat \<times> interference) list \<times> (nat \<Rightarrow> bool) \<times> interference list list) list \<Rightarrow> nat
   \<Rightarrow> basic_thread_pool \<Rightarrow> machine \<Rightarrow> call list
   \<Rightarrow> ((error + unit) \<times> basic_thread_pool \<times> machine \<times> call list) option" where
  "run debug [] index p m tr = None"
| "run debug ((before, acq, env) # sched) index p m tr =
     (case run_body debug acq env index (p\<lparr>queues := fold interfere_at before (queues p)\<rparr>) m of
        None \<Rightarrow> None
      | Some (Inl e, p', m', tr') \<Rightarrow> Some (Inl e, p', m', tr @ tr')
      | Some (Inr continue, p', m', tr') \<Rightarrow>
          if continue then run debug sched index p' m' (tr @ tr')
          else Some (Inr (), p', m', tr @ tr'))"

section \<open>The C callback packager: \<^verbatim>\<open>package_task_as_c_callback\<close>\<close>

text \<open>
  A \<^verbatim>\<open>void*\<close> value is null, the address of a node on the free store, the address of
  the referent of a \<^verbatim>\<open>std::reference_wrapper\<close> (given by the referent), or, where the
  pointer only carries bytes, its object representation.
\<close>

datatype void_ptr = Null_ptr | Node_ptr addr | Referent_ptr callable | Bits "8 word list"

text \<open>
  The \<^verbatim>\<open>DataOwner\<close> of a \<^verbatim>\<open>c_callback\<close>: the local \<^verbatim>\<open>data_t\<close> of the two strategies that
  own nothing, or the \<^verbatim>\<open>std::unique_ptr\<close> returned by \<^verbatim>\<open>allocate_unique\<close>.
\<close>

datatype data_owner = Data_t void_ptr | Unique_ptr "addr option" deleter

definition owner_get :: "data_owner \<Rightarrow> void_ptr" where
  "owner_get d =
     (case d of
        Data_t p \<Rightarrow> p
      | Unique_ptr None del \<Rightarrow> Null_ptr
      | Unique_ptr (Some a) del \<Rightarrow> Node_ptr a)"



text \<open>
  The type of a function object: what a template instantiated for \<^verbatim>\<open>function_t\<close> knows
  with no object at hand, its size, its alignment, its traits and the code of its
  members. \<open>object_of t bs\<close> is the object of that type whose object representation is
  \<open>bs\<close>.
\<close>

record function_type =
  size_of :: nat
  align_of :: nat
  embedded_size_of :: nat
  nothrow_move_constructible_of :: bool
  trivially_copyable_of :: bool
  is_null_of :: bool
  ctor_throws_of :: bool
  call_throws_of :: bool

definition type_of :: "callable \<Rightarrow> function_type" where
  "type_of f =
     \<lparr>size_of = length (repr f), align_of = alignment f, embedded_size_of = embedded_size f,
      nothrow_move_constructible_of = nothrow_move_constructible f,
      trivially_copyable_of = trivially_copyable f, is_null_of = is_null f,
      ctor_throws_of = ctor_throws f, call_throws_of = call_throws f\<rparr>"

definition object_of :: "function_type \<Rightarrow> 8 word list \<Rightarrow> callable" where
  "object_of t bs =
     \<lparr>repr = bs, alignment = align_of t, embedded_size = embedded_size_of t,
      nothrow_move_constructible = nothrow_move_constructible_of t,
      trivially_copyable = trivially_copyable_of t, is_null = is_null_of t,
      ctor_throws = ctor_throws_of t, call_throws = call_throws_of t\<rparr>"

text \<open>
  The three lambdas converted to \<^verbatim>\<open>FunctionPointerType\<close>. They capture nothing: the one
  of the elided strategy has the type \<^verbatim>\<open>function_t\<close> it was instantiated for, and no
  object of it.
\<close>

datatype fn_ptr = Fn_allocated | Fn_elided function_type | Fn_reference

record c_callback =
  fn :: fn_ptr
  data :: data_owner

text \<open>
  The local \<^verbatim>\<open>alignas(converter_t) char converter[sizeof(converter_t)]\<close> of the elided
  lambda after \<^verbatim>\<open>memcpy(converter, &data, sizeof(data))\<close>: an array aligned as the union
  of a \<^verbatim>\<open>function_t\<close> and a \<^verbatim>\<open>void*\<close>, that is to a common multiple of their alignments
  (the alignment of \<^verbatim>\<open>void*\<close> is taken to be its size), holding the bytes of \<open>data\<close>.
\<close>

record local_array =
  aligned_to :: nat
  chars :: "8 word list"

definition converter :: "function_type \<Rightarrow> 8 word list \<Rightarrow> local_array" where
  "converter function_t data_bytes =
     \<lparr>aligned_to = lcm (align_of function_t) (length data_bytes), chars = data_bytes\<rparr>"

text \<open>
  \<^verbatim>\<open>auto* f = reinterpret_cast<function_t*>(converter);\<close> The object read through \<open>f\<close>
  has the first \<^verbatim>\<open>sizeof(function_t)\<close> bytes of the array.
\<close>

definition reconstruct :: "function_type \<Rightarrow> local_array \<Rightarrow> callable" where
  "reconstruct function_t a = object_of function_t (take (size_of function_t) (chars a))"

text \<open>
  \<^verbatim>\<open>move(*f)();\<close> Using a \<^verbatim>\<open>function_t\<close> at an address not aligned for it, or one that
  reaches beyond the array, is undefined.
\<close>

definition call_in_place :: "function_type \<Rightarrow> local_array \<Rightarrow> machine \<Rightarrow> (error + unit) \<times> machine" where
  "call_in_place function_t a m =
     (if align_of function_t dvd aligned_to a \<and> size_of function_t \<le> length (chars a)
      then call_callable (reconstruct function_t a) m
      else (Inl Undefined_behaviour, m))"

text \<open>
  Calling \<^verbatim>\<open>callback(data)\<close>. Allocated: the local \<^verbatim>\<open>deleter\<close> is destroyed when the
  lambda is left, by return or by exception, and deletes the node through the allocator
  stored in it. Elided: the bytes of \<open>data\<close> are copied to the local array and the
  function object there is called.
\<close>

definition invoke_fn :: "fn_ptr \<Rightarrow> void_ptr \<Rightarrow> machine \<Rightarrow> (error + unit) \<times> machine" where
  "invoke_fn fp d m =
     (case fp of
        Fn_allocated \<Rightarrow>
          (case d of
             Node_ptr a \<Rightarrow>
               (case heap m a of
                  None \<Rightarrow> (Inl Undefined_behaviour, m)
                | Some (alloc, f) \<Rightarrow>
                    (case call_callable f m of
                       (r, m1) \<Rightarrow>
                         (case make_allocator_deleter alloc a m1 of
                            (Inl e, m2) \<Rightarrow> (Inl e, m2)
                          | (Inr u, m2) \<Rightarrow> (r, m2))))
           | _ \<Rightarrow> (Inl Undefined_behaviour, m))
      | Fn_elided function_t \<Rightarrow>
          (case d of
             Bits bs \<Rightarrow> call_in_place function_t (converter function_t bs) m
           | _ \<Rightarrow> (Inl Undefined_behaviour, m))
      | Fn_reference \<Rightarrow>
          (case d of
             Referent_ptr f \<Rightarrow> call_callable f m
           | _ \<Rightarrow> (Inl Undefined_behaviour, m)))"

text \<open>The members of \<^verbatim>\<open>c_callback\<close> and its (implicit) destructor.\<close>

definition c_callback_get :: "c_callback \<Rightarrow> fn_ptr \<times> void_ptr" where
  "c_callback_get c = (fn c, owner_get (data c))"




text \<open>
  The three \<^verbatim>\<open>package_task_as_c_callback_impl\<close>. In the elided one \<open>junk\<close> is what the
  uninitialised array \<^verbatim>\<open>converter\<close> holds before
  \<^verbatim>\<open>memcpy(converter, &f, sizeof(f))\<close>; the array has \<^verbatim>\<open>sizeof(converter_t)\<close> bytes, the
  size of a pointer, and \<^verbatim>\<open>*reinterpret_cast<void**>(converter)\<close> reads all of them.
\<close>

definition package_impl_allocated :: "allocator \<Rightarrow> callable \<Rightarrow> machine \<Rightarrow> (error + c_callback) \<times> machine" where
  "package_impl_allocated alloc f m =
     (case allocate_unique alloc (alloc, f) m of
        (Inl e, m') \<Rightarrow> (Inl e, m')
      | (Inr (p, del), m') \<Rightarrow> (Inr \<lparr>fn = Fn_allocated, data = Unique_ptr (Some p) del\<rparr>, m'))"

definition package_impl_elided ::
  "nat \<Rightarrow> 8 word list \<Rightarrow> callable \<Rightarrow> machine \<Rightarrow> (error + c_callback) \<times> machine" where
  "package_impl_elided ptr_size junk f m =
     (Inr \<lparr>fn = Fn_elided (type_of f),
           data = Data_t (Bits (take ptr_size (repr f @ drop (length (repr f)) junk)))\<rparr>, m)"

definition package_impl_reference :: "callable \<Rightarrow> machine \<Rightarrow> (error + c_callback) \<times> machine" where
  "package_impl_reference f m = (Inr \<lparr>fn = Fn_reference, data = Data_t (Referent_ptr f)\<rparr>, m)"

definition can_elide_alloc :: "nat \<Rightarrow> callable \<Rightarrow> bool" where
  "can_elide_alloc ptr_size f = (length (repr f) \<le> ptr_size \<and> trivially_copyable f)"

text \<open>
  \<^verbatim>\<open>package_task_as_c_callback(const Alloc&, F&&)\<close> chooses the overload by
  \<^verbatim>\<open>bool_constant<can_elide_alloc>()\<close>. The elided and the allocated overload take that
  argument (and the allocated one the allocator) as it is, where the overload for
  \<^verbatim>\<open>std::reference_wrapper<T>\<close> needs a conversion to \<^verbatim>\<open>dont_care_t\<close>, and the second
  argument is an exact match for all three: a reference wrapper, itself a function object
  of the size of a pointer, is packaged by the elided overload, and
  \<open>package_impl_reference\<close> is never the best match.
\<close>

definition package_task_as_c_callback ::
  "nat \<Rightarrow> 8 word list \<Rightarrow> allocator \<Rightarrow> callable \<Rightarrow> machine \<Rightarrow> (error + c_callback) \<times> machine" where
  "package_task_as_c_callback ptr_size junk alloc f m =
     (if can_elide_alloc ptr_size f then package_impl_elided ptr_size junk f m
      else package_impl_allocated alloc f m)"

section \<open>Observations on the model\<close>

text \<open>The function object a \<^verbatim>\<open>work_item\<close> reaches through \<^verbatim>\<open>_target\<close>, if any.\<close>

definition stored :: "machine \<Rightarrow> work_item \<Rightarrow> callable option" where
  "stored m w =
     (case target w of
        Null \<Rightarrow> None
      | Embedded \<Rightarrow> buffer w
      | Heap_node p \<Rightarrow> map_option snd (heap m p))"

text \<open>Counting the events of one kind in a trace.\<close>

fun allocations_through :: "allocator \<Rightarrow> event list \<Rightarrow> nat" where
  "allocations_through a [] = 0"
| "allocations_through a (Allocate b p # es) = (if a = b then 1 else 0) + allocations_through a es"
| "allocations_through a (e # es) = allocations_through a es"

fun deallocations_through :: "allocator \<Rightarrow> event list \<Rightarrow> nat" where
  "deallocations_through a [] = 0"
| "deallocations_through a (Deallocate b p # es) = (if a = b then 1 else 0) + deallocations_through a es"
| "deallocations_through a (e # es) = deallocations_through a es"

fun new_expressions :: "event list \<Rightarrow> nat" where
  "new_expressions [] = 0"
| "new_expressions (Operator_new p # es) = 1 + new_expressions es"
| "new_expressions (e # es) = new_expressions es"

text \<open>The events between an earlier and a later state of the machine.\<close>

definition events_since :: "machine \<Rightarrow> machine \<Rightarrow> event list" where
  "events_since m m' = drop (length (events m)) (events m')"

text \<open>
  Function objects of the unit tests: \<^verbatim>\<open>tracked_callable\<close> holds one \<^verbatim>\<open>int*\<close> and has a
  user-provided \<^verbatim>\<open>noexcept\<close> copy constructor; \<^verbatim>\<open>T\<close> holds
  \<^verbatim>\<open>char data[sizeof(void*) * 100]\<close>; \<^verbatim>\<open>check2\<close> holds the \<^verbatim>\<open>std::uintptr_t\<close>
  \<^verbatim>\<open>0x1234567890ABCDEF\<close>; \<^verbatim>\<open>tracked_throwing_callable\<close> throws when called. Sizes are
  those of a platform with 8-byte pointers.
\<close>

definition tracked_callable :: callable where
  "tracked_callable =
     \<lparr>repr = [0x10, 0xF0, 0xFF, 0xFF, 0xFF, 0x7F, 0, 0], alignment = 8, embedded_size = 16,
      nothrow_move_constructible = True, trivially_copyable = False, is_null = False,
      ctor_throws = False, call_throws = False\<rparr>"

definition big_callable :: callable where
  "big_callable =
     \<lparr>repr = replicate 800 0, alignment = 1, embedded_size = 808,
      nothrow_move_constructible = True, trivially_copyable = True, is_null = False,
      ctor_throws = False, call_throws = False\<rparr>"

definition check2 :: callable where
  "check2 =
     \<lparr>repr = [0xEF, 0xCD, 0xAB, 0x90, 0x78, 0x56, 0x34, 0x12], alignment = 8,
      embedded_size = 16,
      nothrow_move_constructible = True, trivially_copyable = True, is_null = False,
      ctor_throws = False, call_throws = False\<rparr>"

definition tracked_throwing_callable :: callable where
  "tracked_throwing_callable =
     \<lparr>repr = [0x10, 0xF0, 0xFF, 0xFF, 0xFF, 0x7F, 0, 0], alignment = 8, embedded_size = 16,
      nothrow_move_constructible = True, trivially_copyable = False, is_null = False,
      ctor_throws = False, call_throws = True\<rparr>"

text \<open>
  A non-empty \<^verbatim>\<open>work_item\<close> as the members of the class leave one: \<^verbatim>\<open>_target\<close> is not
  null, and where it is the address of \<^verbatim>\<open>_buffer\<close> a function object lives there.
\<close>

definition payload :: "work_item \<Rightarrow> bool" where
  "payload w = (case target w of Null \<Rightarrow> False | Embedded \<Rightarrow> buffer w \<noteq> None | Heap_node p \<Rightarrow> True)"

text \<open>
  The two objects a move of a non-empty \<^verbatim>\<open>work_item\<close> leaves, and a queue after one item
  was appended and one waiter notified.
\<close>

definition pushed :: "work_item \<Rightarrow> thread_pool_task_queue \<Rightarrow> thread_pool_task_queue" where
  "pushed w q = q\<lparr>queue := queue q @ [w], ready := ready q @ [Notify_one]\<rparr>"

definition moved_to :: "work_item \<Rightarrow> work_item" where
  "moved_to f = (if is_embedded f then \<lparr>buffer = buffer f, target = Embedded\<rparr>
                 else \<lparr>buffer = None, target = target f\<rparr>)"

definition moved_from :: "work_item \<Rightarrow> work_item" where
  "moved_from f = (if is_embedded f then \<lparr>buffer = None, target = Null\<rparr> else f\<lparr>target := Null\<rparr>)"

text \<open>
  The calls of one submission, given the queue \<open>idx k\<close> of attempt \<open>k\<close>: the attempts
  up to the first whose try-lock succeeds, or all \<open>N\<close> of them and the blocking push on
  queue \<open>idx 0\<close>. \<open>schedule_queue\<close> is the queue that receives the payload.
\<close>

definition schedule_trace :: "(nat \<Rightarrow> nat) \<Rightarrow> (nat \<Rightarrow> bool) \<Rightarrow> nat \<Rightarrow> call list" where
  "schedule_trace idx acq N =
     (case find acq [0 ..< N] of
        Some k \<Rightarrow> map (\<lambda>j. Try_push (idx j) False) [0 ..< k] @ [Try_push (idx k) True]
      | None \<Rightarrow> map (\<lambda>j. Try_push (idx j) False) [0 ..< N] @ [Push (idx 0)])"

definition schedule_queue :: "(nat \<Rightarrow> nat) \<Rightarrow> (nat \<Rightarrow> bool) \<Rightarrow> nat \<Rightarrow> nat" where
  "schedule_queue idx acq N = (case find acq [0 ..< N] of Some k \<Rightarrow> idx k | None \<Rightarrow> idx 0)"

text \<open>
  The queue of attempt \<open>k\<close> as the code computes it, the sum wrapping at 32 bits, and as
  the specification writes it, \<open>(s + k) mod N\<close>.
\<close>

definition wrapped_index :: "32 word \<Rightarrow> nat \<Rightarrow> nat \<Rightarrow> nat" where
  "wrapped_index s N k = ((unat s + k) mod 2 ^ 32) mod N"

definition claimed_index :: "32 word \<Rightarrow> nat \<Rightarrow> nat \<Rightarrow> nat" where
  "claimed_index s N k = (unat s + k) mod N"

text \<open>Outcomes of the try-locks, for the examples.\<close>

definition second_only :: "nat \<Rightarrow> bool" where
  "second_only k = (k = 1)"

definition never :: "nat \<Rightarrow> bool" where
  "never k = False"

text \<open>A pool of three workers whose counter is at its last value, and one at 5.\<close>

definition wrapping_pool :: basic_thread_pool where
  "wrapping_pool =
     \<lparr>num_threads = 3, queues = [task_queue_init, task_queue_init, task_queue_init],
      threads = [0, 1, 2], next_thread = 0xFFFFFFFF\<rparr>"

definition trace_of :: "error + basic_thread_pool \<times> work_item \<times> call list \<Rightarrow> call list option" where
  "trace_of r = (case r of Inl e \<Rightarrow> None | Inr (p, f, tr) \<Rightarrow> Some tr)"

definition small_pool :: basic_thread_pool where
  "small_pool =
     \<lparr>num_threads = 3, queues = [task_queue_init, task_queue_init, task_queue_init],
      threads = [0, 1, 2], next_thread = 5\<rparr>"

text \<open>
  Attempt \<open>j\<close> of the try loop of worker \<open>index\<close> succeeds when its try-lock does and
  its queue, \<open>(index + j) mod N\<close>, is not empty. \<open>failed_tries\<close> are the calls of the
  attempts \<open>js\<close> when all fail; \<open>front_taken\<close> and \<open>front_of\<close> are the queues after the
  front of queue \<open>k\<close> was popped, and the popped item.
\<close>

definition hit :: "(nat \<Rightarrow> bool) \<Rightarrow> thread_pool_task_queue list \<Rightarrow> nat \<Rightarrow> nat \<Rightarrow> nat \<Rightarrow> bool" where
  "hit acq qs N index j = (acq j \<and> queue (qs ! ((index + j) mod N)) \<noteq> [])"

definition failed_tries :: "nat \<Rightarrow> nat \<Rightarrow> nat list \<Rightarrow> call list" where
  "failed_tries index N js = map (\<lambda>j. Try_pop ((index + j) mod N) False) js"

definition front_taken :: "nat \<Rightarrow> thread_pool_task_queue list \<Rightarrow> thread_pool_task_queue list" where
  "front_taken k qs = qs[k := (qs ! k)\<lparr>queue := tl (queue (qs ! k))\<rparr>]"

definition front_of :: "nat \<Rightarrow> thread_pool_task_queue list \<Rightarrow> work_item" where
  "front_of k qs = moved_to (hd (queue (qs ! k)))"

text \<open>
  A \<^verbatim>\<open>work_item\<close> whose function object exists in the machine; the steps of the other
  threads that push only such items; the number of calls of function objects in a trace;
  the last call of a trace.
\<close>

definition live :: "machine \<Rightarrow> work_item \<Rightarrow> bool" where
  "live m w = (stored m w \<noteq> None)"

fun pushes_live :: "machine \<Rightarrow> interference \<Rightarrow> bool" where
  "pushes_live m (Other_push w) = live m w"
| "pushes_live m Other_take = True"
| "pushes_live m Other_done = True"

fun invocations :: "event list \<Rightarrow> nat" where
  "invocations [] = 0"
| "invocations (Invoke f # es) = 1 + invocations es"
| "invocations (e # es) = invocations es"

definition last_call :: "call list \<Rightarrow> call option" where
  "last_call tr = (if tr = [] then None else Some (last tr))"

text \<open>A pool of two workers with one payload in the second queue, and a try-lock that always succeeds.\<close>

definition always :: "nat \<Rightarrow> bool" where
  "always k = True"

definition two_worker_pool :: basic_thread_pool where
  "two_worker_pool =
     \<lparr>num_threads = 2,
      queues = [task_queue_init,
                \<lparr>queue = [\<lparr>buffer = Some tracked_callable, target = Embedded\<rparr>], is_done = False,
                 ready = [Notify_one]\<rparr>],
      threads = [0, 1], next_thread = 1\<rparr>"

definition calls_of ::
  "((error + bool) \<times> basic_thread_pool \<times> machine \<times> call list) option \<Rightarrow> ((error + bool) \<times> call list) option" where
  "calls_of r = map_option (\<lambda>x. (fst x, snd (snd (snd x)))) r"



text \<open>
  What an uninitialised array on the stack may hold, and the handle made with a user
  allocator from the function object that throws when called.
\<close>

definition stack_junk :: "8 word list" where
  "stack_junk = [0xAA, 0xAA, 0xAA, 0xAA, 0xAA, 0xAA, 0xAA, 0xAA]"


text \<open>
  The result and the calls of a worker that has left its loop; a pool of two workers
  whose one payload throws when called; and a pool of \<open>2^29\<close> workers, each queue
  holding one payload.
\<close>

definition run_calls ::
  "((error + unit) \<times> basic_thread_pool \<times> machine \<times> call list) option \<Rightarrow> ((error + unit) \<times> call list) option" where
  "run_calls r = map_option (\<lambda>x. (fst x, snd (snd (snd x)))) r"

definition throwing_pool :: basic_thread_pool where
  "throwing_pool =
     \<lparr>num_threads = 2,
      queues = [task_queue_init,
                \<lparr>queue = [\<lparr>buffer = Some tracked_throwing_callable, target = Embedded\<rparr>], is_done = False,
                 ready = [Notify_one]\<rparr>],
      threads = [0, 1], next_thread = 1\<rparr>"

definition huge_pool :: basic_thread_pool where
  "huge_pool =
     \<lparr>num_threads = 0x20000000,
      queues = replicate 536870912
                 \<lparr>queue = [\<lparr>buffer = Some tracked_callable, target = Embedded\<rparr>], is_done = False,
                  ready = [Notify_one]\<rparr>,
      threads = [0 ..< 536870912], next_thread = 0\<rparr>"

section \<open>Construction of a pool\<close>

lemma basic_thread_pool_ctor_sizes:
  "num_threads (basic_thread_pool_ctor n) = max 1 n \<and>
   length (queues (basic_thread_pool_ctor n)) = unat (max 1 n) \<and>
   threads (basic_thread_pool_ctor n) = [0 ..< unat (max 1 n)]"
  by (simp add: basic_thread_pool_ctor_def Let_def)

text \<open>
  C5. A pool is to have \<open>max(1, N)\<close> queues and threads for the thread count \<open>N\<close> the user
  passes. \<^verbatim>\<open>basic_thread_pool\<close> does so (\<open>basic_thread_pool_ctor_sizes\<close>), and
  \<^verbatim>\<open>java_shared_native_pool\<close> passes its argument on; \<^verbatim>\<open>thread_pool(int num_threads)\<close> does
  not: where \<^verbatim>\<open>std::thread::hardware_concurrency()\<close> is 8, \<^verbatim>\<open>thread_pool(4)\<close> has 8 threads
  and 8 queues.
\<close>

theorem thread_pool_ctor_ignores_num_threads:
  "length (threads (thread_pool_ctor 8 4)) = 8 \<and> length (queues (thread_pool_ctor 8 4)) = 8 \<and>
   num_threads (thread_pool_ctor 8 4) = 8 \<and>
   length (threads (java_shared_native_pool_ctor 4)) = 4"
  by (simp add: thread_pool_ctor_def java_shared_native_pool_ctor_def basic_thread_pool_ctor_def Let_def)

section \<open>The task payload\<close>

text \<open>
  C9. Calling a non-empty \<^verbatim>\<open>work_item\<close> leaves it non-empty with \<^verbatim>\<open>_target\<close> unchanged,
  and destroys and frees nothing: the only event is the call. The destructor that
  follows performs the one destruction of the function object and, for a node on the
  free store, the one deallocation.
\<close>

theorem work_item_call_keeps_target:
  assumes "stored m w = Some f"
  shows "case work_item_call w m of (r, w', m') \<Rightarrow>
           w' = w \<and> operator_bool w' \<and> target w' = target w \<and>
           r = (if call_throws f then Inl Exception_thrown else Inr ()) \<and>
           heap m' = heap m \<and> events m' = events m @ [Invoke f] \<and>
           (case work_item_dtor w' m' of (r2, m'') \<Rightarrow>
              r2 = Inr () \<and>
              (if is_embedded w'
               then events m'' = events m' @ [Destroy f] \<and> heap m'' = heap m'
               else \<exists>a p. target w' = Heap_node p \<and> heap m p = Some (a, f) \<and>
                      events m'' = events m' @ [Destroy f, Deallocate a p] \<and>
                      heap m'' = (heap m')(p := None)))"
proof (cases "target w")
  case Null
  with assms show ?thesis by (simp add: stored_def)
next
  case Embedded
  with assms show ?thesis
    by (simp add: stored_def work_item_call_def call_callable_def emit_def operator_bool_def
        work_item_dtor_def is_embedded_def)
next
  case (Heap_node p)
  with assms obtain a where "heap m p = Some (a, f)"
    by (auto simp: stored_def)
  with Heap_node show ?thesis
    by (simp add: work_item_call_def call_callable_def emit_def operator_bool_def
        work_item_dtor_def is_embedded_def destroy_dealloc_def)
qed

theorem work_item_call_keeps_target_witness:
  "stored machine_init \<lparr>buffer = Some tracked_callable, target = Embedded\<rparr> = Some tracked_callable \<and>
   operator_bool (fst (snd (work_item_call \<lparr>buffer = Some tracked_callable, target = Embedded\<rparr> machine_init))) \<and>
   events (snd (snd (work_item_call \<lparr>buffer = Some tracked_callable, target = Embedded\<rparr> machine_init)))
     = [Invoke tracked_callable]"
proof -
  have h: "stored machine_init \<lparr>buffer = Some tracked_callable, target = Embedded\<rparr> = Some tracked_callable"
    by (simp add: stored_def)
  from work_item_call_keeps_target [OF h] h show ?thesis
    by (simp add: machine_init_def split: prod.splits)
qed

text \<open>
  C10. The move constructor is the move assignment to an empty object. With an empty
  destination and a source holding a function object, no assertion of the assignment
  fails, whatever the build; the source is left empty and the destination holds the
  function object, in its own buffer when the source held it in its buffer and by the
  same pointer otherwise. With an empty source a build with assertions stops at one.
\<close>

theorem move_ctor_preconditions:
  "move_ctor debug other = move_assign debug work_item_default other \<and>
   (target this = Null \<and> stored m other = Some f \<longrightarrow>
      (\<exists>this' other'. move_assign debug this other = Inr (this', other') \<and>
         target other' = Null \<and> \<not> operator_bool other' \<and> stored m this' = Some f \<and>
         (is_embedded other \<longrightarrow> is_embedded this' \<and> buffer this' = Some f) \<and>
         (\<not> is_embedded other \<longrightarrow> target this' = target other))) \<and>
   (target other = Null \<longrightarrow>
      move_ctor True other = Inl (Assertion_failed ''moved from work_item twice'') \<and>
      (\<exists>msg. move_assign True this other = Inl (Assertion_failed msg)))"
proof (intro conjI impI)
  show "move_ctor debug other = move_assign debug work_item_default other"
    by (simp add: move_ctor_def work_item_default_def)
next
  assume h: "target this = Null \<and> stored m other = Some f"
  show "\<exists>this' other'. move_assign debug this other = Inr (this', other') \<and>
         target other' = Null \<and> \<not> operator_bool other' \<and> stored m this' = Some f \<and>
         (is_embedded other \<longrightarrow> is_embedded this' \<and> buffer this' = Some f) \<and>
         (\<not> is_embedded other \<longrightarrow> target this' = target other)"
  proof (cases "target other")
    case Null
    with h show ?thesis by (simp add: stored_def)
  next
    case Embedded
    with h show ?thesis
      by (simp add: stored_def move_assign_def is_embedded_def operator_bool_def)
  next
    case (Heap_node p)
    with h show ?thesis
      by (simp add: stored_def move_assign_def is_embedded_def operator_bool_def)
  qed
next
  assume "target other = Null"
  then show "move_ctor True other = Inl (Assertion_failed ''moved from work_item twice'')"
    by (simp add: move_ctor_def move_assign_def)
next
  assume "target other = Null"
  then show "\<exists>msg. move_assign True this other = Inl (Assertion_failed msg)"
    by (simp add: move_assign_def)
qed

theorem move_ctor_preconditions_witness:
  "stored machine_init \<lparr>buffer = Some tracked_callable, target = Embedded\<rparr> = Some tracked_callable \<and>
   move_ctor True \<lparr>buffer = Some tracked_callable, target = Embedded\<rparr>
     = Inr (\<lparr>buffer = Some tracked_callable, target = Embedded\<rparr>, work_item_default) \<and>
   move_ctor True work_item_default = Inl (Assertion_failed ''moved from work_item twice'')"
  using move_ctor_preconditions [of True "\<lparr>buffer = Some tracked_callable, target = Embedded\<rparr>"
      work_item_default machine_init tracked_callable]
    move_ctor_preconditions [of True work_item_default work_item_default machine_init tracked_callable]
  by (simp add: stored_def work_item_default_def move_ctor_def move_assign_def is_embedded_def)

lemma allocate_unique_events:
  "events (snd (allocate_unique alloc (alloc, f) m)) =
     events m @
       [case alloc of Std_allocator \<Rightarrow> Operator_new (fresh m) | User_allocator n \<Rightarrow> Allocate alloc (fresh m),
        if ctor_throws f
        then (case alloc of Std_allocator \<Rightarrow> Operator_delete (fresh m)
              | User_allocator n \<Rightarrow> Deallocate alloc (fresh m))
        else Construct f]"
  by (cases alloc) (simp_all add: allocate_unique_def emit_def Let_def)

lemma allocate_unique_result:
  "fst (allocate_unique alloc (alloc, f) m) =
     (if ctor_throws f then Inl Exception_thrown
      else Inr (fresh m, case alloc of Std_allocator \<Rightarrow> Default_delete
                          | User_allocator n \<Rightarrow> Allocator_deleter alloc))"
  by (cases alloc) (simp_all add: allocate_unique_def emit_def Let_def)

lemma allocate_unique_heap:
  "heap (snd (allocate_unique alloc (alloc, f) m)) =
     (if ctor_throws f then heap m else (heap m)(fresh m \<mapsto> (alloc, f)))"
  by (cases alloc) (simp_all add: allocate_unique_def emit_def Let_def)

text \<open>
  C6, as the specification states it: whenever the function object is not stored in the
  buffer, the constructor allocates exactly once through the supplied allocator. With a
  \<^verbatim>\<open>std::allocator\<close> and the 800-byte \<^verbatim>\<open>T\<close> the node comes from the new-expression of
  \<^verbatim>\<open>std::make_unique\<close>, and nothing is allocated through the allocator.
\<close>

theorem work_item_ctor_std_allocator_counterexample:
  "\<not> can_embed 24 big_callable \<and>
   events (snd (work_item_ctor False 24 Std_allocator big_callable machine_init))
     = [Operator_new 0, Construct big_callable] \<and>
   allocations_through Std_allocator
     (events (snd (work_item_ctor False 24 Std_allocator big_callable machine_init))) \<noteq> 1"
  by (simp add: can_embed_def big_callable_def work_item_ctor_def emplace_def emplace_impl_alloc_def
      allocate_unique_def machine_init_def emit_def Let_def)

text \<open>
  C6, amended. When no assertion stops the constructor: the function object is stored in
  the buffer, with no allocation of any kind, exactly when its \<^verbatim>\<open>fun_without_alloc\<close> node
  fits in the buffer and it is nothrow-move-constructible. In every other case storage
  for one node holding the allocator copy and the function object is obtained exactly
  once: through the supplied allocator when that is not a \<^verbatim>\<open>std::allocator\<close>, and by
  one new-expression, with no call of the allocator, when it is. Destroying a
  \<^verbatim>\<open>work_item\<close> whose node is on the free store deallocates exactly once, through the
  allocator copy in the node.
\<close>

theorem work_item_ctor_allocations:
  assumes "\<not> (debug \<and> is_null f)"
  shows "case work_item_ctor debug buffer_size alloc f m of (r, m') \<Rightarrow>
           (can_embed buffer_size f \<longrightarrow>
              allocations_through a (events_since m m') = 0 \<and> new_expressions (events_since m m') = 0 \<and>
              heap m' = heap m \<and>
              r = (if ctor_throws f then Inl Exception_thrown
                   else Inr \<lparr>buffer = Some f, target = Embedded\<rparr>)) \<and>
           (\<not> can_embed buffer_size f \<longrightarrow>
              allocations_through alloc (events_since m m') = (if alloc = Std_allocator then 0 else 1) \<and>
              new_expressions (events_since m m') = (if alloc = Std_allocator then 1 else 0) \<and>
              (a \<noteq> alloc \<longrightarrow> allocations_through a (events_since m m') = 0) \<and>
              r = (if ctor_throws f then Inl Exception_thrown
                   else Inr \<lparr>buffer = None, target = Heap_node (fresh m)\<rparr>) \<and>
              (\<not> ctor_throws f \<longrightarrow> heap m' (fresh m) = Some (alloc, f))) \<and>
           (\<forall>w. r = Inr w \<longrightarrow>
              (is_embedded w \<longleftrightarrow> can_embed buffer_size f) \<and> stored m' w = Some f \<and>
              (case work_item_dtor w m' of (r2, m'') \<Rightarrow>
                 r2 = Inr () \<and>
                 events_since m' m'' =
                   (if can_embed buffer_size f then [Destroy f]
                    else [Destroy f, Deallocate alloc (fresh m)]) \<and>
                 deallocations_through alloc (events_since m' m'') =
                   (if can_embed buffer_size f then 0 else 1)))"
proof (cases "can_embed buffer_size f")
  case True
  with assms show ?thesis
    by (simp add: work_item_ctor_def emplace_def emplace_impl_embed_def emit_def events_since_def
        is_embedded_def stored_def work_item_dtor_def)
next
  case False
  obtain r0 m0 where au: "allocate_unique alloc (alloc, f) m = (r0, m0)"
    by (cases "allocate_unique alloc (alloc, f) m")
  from au allocate_unique_events [of alloc f m] allocate_unique_result [of alloc f m]
    allocate_unique_heap [of alloc f m]
  have ev: "events m0 = events m @
       [case alloc of Std_allocator \<Rightarrow> Operator_new (fresh m) | User_allocator n \<Rightarrow> Allocate alloc (fresh m),
        if ctor_throws f
        then (case alloc of Std_allocator \<Rightarrow> Operator_delete (fresh m)
              | User_allocator n \<Rightarrow> Deallocate alloc (fresh m))
        else Construct f]"
    and r0: "r0 = (if ctor_throws f then Inl Exception_thrown
      else Inr (fresh m, case alloc of Std_allocator \<Rightarrow> Default_delete
                          | User_allocator n \<Rightarrow> Allocator_deleter alloc))"
    and hp: "heap m0 = (if ctor_throws f then heap m else (heap m)(fresh m \<mapsto> (alloc, f)))"
    by simp_all
  show ?thesis
  proof (cases "ctor_throws f")
    case True
    with False assms au ev r0 hp show ?thesis
      by (cases alloc)
        (simp_all add: work_item_ctor_def emplace_def emplace_impl_alloc_def events_since_def)
  next
    case nothrow: False
    with False assms au ev r0 hp show ?thesis
      by (cases alloc)
        (auto simp add: work_item_ctor_def emplace_def emplace_impl_alloc_def events_since_def
          is_embedded_def stored_def work_item_dtor_def destroy_dealloc_def emit_def)
  qed
qed

theorem work_item_ctor_allocations_witness:
  "\<not> (True \<and> is_null big_callable) \<and>
   allocations_through (User_allocator 1)
     (events_since machine_init
        (snd (work_item_ctor True 24 (User_allocator 1) big_callable machine_init))) = 1"
proof -
  have h: "\<not> (True \<and> is_null big_callable)"
    by (simp add: big_callable_def)
  have c: "\<not> can_embed 24 big_callable"
    by (simp add: can_embed_def big_callable_def)
  from work_item_ctor_allocations [OF h, of 24 "User_allocator 1" machine_init "User_allocator 1"] c h
  show ?thesis
    by (simp split: prod.splits)
qed

section \<open>The per-worker queue\<close>

lemma move_assign_payload:
  assumes "target this = Null" and "payload other"
  shows "\<exists>this'. move_assign debug this other = Inr (this', other\<lparr>buffer := if is_embedded other then None else buffer other, target := Null\<rparr>) \<and>
           payload this' \<and> target this' = target other \<and>
           (is_embedded other \<longrightarrow> buffer this' = buffer other) \<and>
           (\<forall>m. stored m this' = stored m other)"
  using assms
  by (cases "target other")
     (auto simp: move_assign_def payload_def is_embedded_def stored_def)

lemma move_ctor_payload:
  assumes "payload other"
  shows "\<exists>new. move_ctor debug other = Inr (new, other\<lparr>buffer := if is_embedded other then None else buffer other, target := Null\<rparr>) \<and>
           payload new \<and> target new = target other \<and>
           (is_embedded other \<longrightarrow> buffer new = buffer other) \<and>
           (\<forall>m. stored m new = stored m other)"
  unfolding move_ctor_def
  using move_assign_payload [of "\<lparr>buffer = None, target = Null\<rparr>" other debug] assms
  by simp

text \<open>
  C4. When the mutex cannot be acquired without blocking, \<^verbatim>\<open>try_push\<close> returns false and
  leaves the queue and the caller's payload as they were. When it can, the payload is
  appended at the back, one waiter is notified and the result is true; \<^verbatim>\<open>push\<close> appends
  and notifies in the same way, and both leave the argument empty.
\<close>

theorem try_push_contract:
  "tq_try_push debug False q f = Inr (False, q, f) \<and>
   (payload f \<longrightarrow>
      (\<exists>new f'. tq_try_push debug True q f =
                   Inr (True, q\<lparr>queue := queue q @ [new], ready := ready q @ [Notify_one]\<rparr>, f') \<and>
                 tq_push debug q f =
                   Inr (q\<lparr>queue := queue q @ [new], ready := ready q @ [Notify_one]\<rparr>, f') \<and>
                 payload new \<and> (\<forall>m. stored m new = stored m f) \<and> \<not> operator_bool f'))"
proof (intro conjI impI)
  show "tq_try_push debug False q f = Inr (False, q, f)"
    by (simp add: tq_try_push_def)
next
  assume "payload f"
  from move_ctor_payload [OF this, of debug]
  show "\<exists>new f'. tq_try_push debug True q f =
                   Inr (True, q\<lparr>queue := queue q @ [new], ready := ready q @ [Notify_one]\<rparr>, f') \<and>
                 tq_push debug q f =
                   Inr (q\<lparr>queue := queue q @ [new], ready := ready q @ [Notify_one]\<rparr>, f') \<and>
                 payload new \<and> (\<forall>m. stored m new = stored m f) \<and> \<not> operator_bool f'"
    by (auto simp: tq_try_push_def tq_push_def emplace_back_notify_def operator_bool_def)
qed

theorem try_push_contract_witness:
  "payload \<lparr>buffer = Some tracked_callable, target = Embedded\<rparr> \<and>
   tq_try_push True True task_queue_init \<lparr>buffer = Some tracked_callable, target = Embedded\<rparr>
     = Inr (True,
            \<lparr>queue = [\<lparr>buffer = Some tracked_callable, target = Embedded\<rparr>], is_done = False,
             ready = [Notify_one]\<rparr>,
            \<lparr>buffer = None, target = Null\<rparr>) \<and>
   tq_try_push True False task_queue_init \<lparr>buffer = Some tracked_callable, target = Embedded\<rparr>
     = Inr (False, task_queue_init, \<lparr>buffer = Some tracked_callable, target = Embedded\<rparr>)"
  using try_push_contract [of True task_queue_init "\<lparr>buffer = Some tracked_callable, target = Embedded\<rparr>"]
  by (simp add: payload_def task_queue_init_def tq_try_push_def emplace_back_notify_def move_ctor_def
      move_assign_def is_embedded_def)

lemma interfere_done: "is_done q \<Longrightarrow> is_done (interfere s q)"
  by (cases s) (simp_all add: tq_done_def)

lemma fold_interfere_done: "is_done q \<Longrightarrow> is_done (fold interfere steps q)"
  by (induction steps arbitrary: q) (simp_all add: interfere_done)









section \<open>Submission\<close>

lemma move_ctor_moved:
  "payload f \<Longrightarrow> move_ctor debug f = Inr (moved_to f, moved_from f)"
  by (cases "target f")
    (auto simp: move_ctor_def move_assign_def payload_def moved_to_def moved_from_def is_embedded_def)

lemma tq_try_push_moved:
  "payload f \<Longrightarrow>
   tq_try_push debug locked q f =
     (if locked then Inr (True, pushed (moved_to f) q, moved_from f) else Inr (False, q, f))"
  by (simp add: tq_try_push_def emplace_back_notify_def move_ctor_moved pushed_def)

lemma tq_push_moved:
  "payload f \<Longrightarrow> tq_push debug q f = Inr (pushed (moved_to f) q, moved_from f)"
  by (simp add: tq_push_def emplace_back_notify_def move_ctor_moved pushed_def)

lemma unat_succ_less: "(i :: 32 word) < n \<Longrightarrow> unat (i + 1) = Suc (unat i)"
  by unat_arith

lemma index_as_nat:
  "unat ((thread + i) mod (n :: 32 word)) = wrapped_index thread (unat n) (unat i)"
  by (simp add: wrapped_index_def unat_mod unat_word_ariths)

lemma unat32_mod: "unat (s :: 32 word) mod 4294967296 = unat s"
  using unsigned_less [of s, where ?'a = nat] by simp

lemma wrapped_index_less: "0 < N \<Longrightarrow> wrapped_index s N k < N"
  by (simp add: wrapped_index_def)

lemma schedule_loop_spec:
  assumes "payload f" and "length qs = unat n"
  shows "schedule_loop debug acq n thread qs f i tr =
     (case find acq [unat i ..< unat n] of
        None \<Rightarrow>
          Inr (False, qs, f,
               tr @ map (\<lambda>j. Try_push (wrapped_index thread (unat n) j) False) [unat i ..< unat n])
      | Some k \<Rightarrow>
          Inr (True,
               qs[wrapped_index thread (unat n) k :=
                    pushed (moved_to f) (qs ! wrapped_index thread (unat n) k)],
               moved_from f,
               tr @ map (\<lambda>j. Try_push (wrapped_index thread (unat n) j) False) [unat i ..< k]
                  @ [Try_push (wrapped_index thread (unat n) k) True]))"
proof (induction "unat n - unat i" arbitrary: i tr)
  case 0
  then have a: "\<not> i < n" by (simp add: word_less_nat_alt)
  from 0 have e: "[unat i ..< unat n] = []" by simp
  show ?case
    by (subst schedule_loop.simps) (simp add: a e)
next
  case (Suc d)
  then have lt: "i < n" by (simp add: word_less_nat_alt)
  then have s: "unat (i + 1) = Suc (unat i)" by (rule unat_succ_less)
  from lt have l: "unat i < unat n" by (simp add: word_less_nat_alt)
  then have u: "[unat i ..< unat n] = unat i # [Suc (unat i) ..< unat n]"
    by (rule upt_conv_Cons)
  from l have "0 < unat n" by simp
  then have b: "wrapped_index thread (unat n) (unat i) < length qs"
    using assms(2) by (simp add: wrapped_index_less)
  show ?case
  proof (cases "acq (unat i)")
    case True
    show ?thesis
      by (subst schedule_loop.simps) (simp add: True lt assms(1) u tq_try_push_moved index_as_nat)
  next
    case False
    from Suc(2) s have "d = unat n - unat (i + 1)" by simp
    from Suc(1) [OF this, of "tr @ [Try_push (wrapped_index thread (unat n) (unat i)) False]"]
    have ih: "schedule_loop debug acq n thread qs f (i + 1)
                (tr @ [Try_push (wrapped_index thread (unat n) (unat i)) False]) =
     (case find acq [Suc (unat i) ..< unat n] of
        None \<Rightarrow>
          Inr (False, qs, f,
               (tr @ [Try_push (wrapped_index thread (unat n) (unat i)) False]) @
                 map (\<lambda>j. Try_push (wrapped_index thread (unat n) j) False) [Suc (unat i) ..< unat n])
      | Some k \<Rightarrow>
          Inr (True,
               qs[wrapped_index thread (unat n) k :=
                    pushed (moved_to f) (qs ! wrapped_index thread (unat n) k)],
               moved_from f,
               (tr @ [Try_push (wrapped_index thread (unat n) (unat i)) False]) @
                 map (\<lambda>j. Try_push (wrapped_index thread (unat n) j) False) [Suc (unat i) ..< k]
                  @ [Try_push (wrapped_index thread (unat n) k) True]))"
      by (simp only: s)
    have k: "\<And>k. find acq [Suc (unat i) ..< unat n] = Some k \<Longrightarrow> [unat i ..< k] = unat i # [Suc (unat i) ..< k]"
    proof -
      fix k assume "find acq [Suc (unat i) ..< unat n] = Some k"
      then have "k \<in> set [Suc (unat i) ..< unat n]"
        by (auto simp: find_Some_iff)
      then have "unat i < k" by simp
      then show "[unat i ..< k] = unat i # [Suc (unat i) ..< k]" by (rule upt_conv_Cons)
    qed
    have step: "schedule_loop debug acq n thread qs f i tr =
        schedule_loop debug acq n thread qs f (i + 1)
                (tr @ [Try_push (wrapped_index thread (unat n) (unat i)) False])"
      by (subst schedule_loop.simps) (simp add: False lt assms(1) b tq_try_push_moved index_as_nat)
    show ?thesis
    proof (cases "find acq [Suc (unat i) ..< unat n]")
      case None
      with False show ?thesis
        by (simp add: step ih u)
    next
      case (Some k')
      with False k [OF Some] show ?thesis
        by (simp add: step ih u)
    qed
  qed
qed


text \<open>
  C1, as the specification states it: attempt \<open>k\<close> is on queue \<open>(s + k) mod N\<close>. With
  three queues, the counter at \<open>2^32 - 1\<close> and every try-lock failing, the code tries
  the queues 0, 0 and 1, where \<open>(s + k) mod 3\<close> gives 0, 1 and 2.
\<close>

theorem schedule_wrap_counterexample:
  "trace_of (schedule False never wrapping_pool \<lparr>buffer = Some tracked_callable, target = Embedded\<rparr>)
     = Some [Try_push 0 False, Try_push 0 False, Try_push 1 False, Push 0] \<and>
   schedule_trace (claimed_index (next_thread wrapping_pool) 3) never 3
     = [Try_push 0 False, Try_push 1 False, Try_push 2 False, Push 0] \<and>
   trace_of (schedule False never wrapping_pool \<lparr>buffer = Some tracked_callable, target = Embedded\<rparr>)
     \<noteq> Some (schedule_trace (claimed_index (next_thread wrapping_pool) 3) never 3)"
  by (simp add: trace_of_def schedule_def wrapping_pool_def never_def schedule_loop.simps
      tq_try_push_def tq_push_def emplace_back_notify_def move_ctor_def move_assign_def
      is_embedded_def task_queue_init_def schedule_trace_def claimed_index_def Let_def upt_rec)

text \<open>
  C1, amended. A submission reads and increments the shared counter; with \<open>s\<close> the value
  read, attempt \<open>k = 0, ..., N - 1\<close> is a \<^verbatim>\<open>try_push\<close> of the payload on queue
  \<open>((s + k) mod 2^32) mod N\<close>, the sum being taken in the counter's wrapping 32-bit
  arithmetic (which is \<open>(s + k) mod N\<close> as long as \<open>s + k\<close> does not wrap). The submission
  returns at the first attempt that succeeds; when all \<open>N\<close> fail there is exactly one
  blocking \<^verbatim>\<open>push\<close> of the same payload, on queue \<open>s mod N\<close>. The payload ends at the
  back of the one queue that accepted it.
\<close>

theorem schedule_round_robin:
  assumes "payload f" and "length (queues p) = unat (num_threads p)" and "num_threads p \<noteq> 0"
  shows "\<exists>p'. schedule debug acq p f =
            Inr (p', moved_from f,
                 schedule_trace (wrapped_index (next_thread p) (unat (num_threads p))) acq
                   (unat (num_threads p))) \<and>
          next_thread p' = next_thread p + 1 \<and> num_threads p' = num_threads p \<and>
          threads p' = threads p \<and>
          queues p' =
            (queues p)[schedule_queue (wrapped_index (next_thread p) (unat (num_threads p))) acq
                         (unat (num_threads p)) :=
               pushed (moved_to f)
                 (queues p ! schedule_queue (wrapped_index (next_thread p) (unat (num_threads p))) acq
                                (unat (num_threads p)))] \<and>
          schedule_queue (wrapped_index (next_thread p) (unat (num_threads p))) acq
            (unat (num_threads p)) < length (queues p) \<and>
          \<not> operator_bool (moved_from f) \<and> payload (moved_to f) \<and>
          (\<forall>m. stored m (moved_to f) = stored m f) \<and>
          wrapped_index (next_thread p) (unat (num_threads p)) 0 = unat (next_thread p) mod unat (num_threads p) \<and>
          (\<forall>k. unat (next_thread p) + k < 2 ^ 32 \<longrightarrow>
             wrapped_index (next_thread p) (unat (num_threads p)) k =
               claimed_index (next_thread p) (unat (num_threads p)) k)"
proof -
  let ?n = "num_threads p" and ?s = "next_thread p"
  let ?idx = "wrapped_index ?s (unat ?n)"
  from assms(3) have pos: "0 < unat ?n" by (simp add: unat_gt_0)
  have loop: "schedule_loop debug acq ?n ?s (queues p) f 0 [] =
     (case find acq [0 ..< unat ?n] of
        None \<Rightarrow> Inr (False, queues p, f, map (\<lambda>j. Try_push (?idx j) False) [0 ..< unat ?n])
      | Some k \<Rightarrow>
          Inr (True, (queues p)[?idx k := pushed (moved_to f) (queues p ! ?idx k)], moved_from f,
               map (\<lambda>j. Try_push (?idx j) False) [0 ..< k] @ [Try_push (?idx k) True]))"
    using schedule_loop_spec [OF assms(1) assms(2), of debug acq ?s 0 "[]"]
    by (simp cong: option.case_cong)
  have zero: "unat (?s mod ?n) = ?idx 0"
    by (simp add: wrapped_index_def unat_mod unat32_mod)
  have m: "\<not> operator_bool (moved_from f)" "payload (moved_to f)" "\<forall>m. stored m (moved_to f) = stored m f"
    using assms(1)
    by (cases "target f"; simp add: moved_from_def moved_to_def operator_bool_def payload_def
        is_embedded_def stored_def)+
  have w: "\<forall>k. unat ?s + k < 2 ^ 32 \<longrightarrow> ?idx k = claimed_index ?s (unat ?n) k"
    by (simp add: wrapped_index_def claimed_index_def)
  have z: "?idx 0 = unat ?s mod unat ?n"
    by (simp add: wrapped_index_def unat32_mod)
  have lt: "schedule_queue ?idx acq (unat ?n) < length (queues p)"
    using pos assms(2) by (simp add: schedule_queue_def wrapped_index_less split: option.splits)
  show ?thesis
  proof (cases "find acq [0 ..< unat ?n]")
    case None
    with loop assms(1) m w z lt show ?thesis
      by (simp add: schedule_def Let_def tq_push_moved zero schedule_trace_def schedule_queue_def)
  next
    case (Some k)
    with loop assms(1) m w z lt show ?thesis
      by (simp add: schedule_def Let_def schedule_trace_def schedule_queue_def)
  qed
qed

theorem schedule_round_robin_witness:
  "payload \<lparr>buffer = Some tracked_callable, target = Embedded\<rparr> \<and>
   length (queues small_pool) = unat (num_threads small_pool) \<and> num_threads small_pool \<noteq> 0 \<and>
   trace_of (schedule True second_only small_pool \<lparr>buffer = Some tracked_callable, target = Embedded\<rparr>)
     = Some [Try_push 2 False, Try_push 0 True] \<and>
   trace_of (schedule True never small_pool \<lparr>buffer = Some tracked_callable, target = Embedded\<rparr>)
     = Some [Try_push 2 False, Try_push 0 False, Try_push 1 False, Push 2]"
  using schedule_round_robin [of "\<lparr>buffer = Some tracked_callable, target = Embedded\<rparr>" small_pool
      True second_only]
    schedule_round_robin [of "\<lparr>buffer = Some tracked_callable, target = Embedded\<rparr>" small_pool
      True never]
  by (auto simp add: payload_def small_pool_def trace_of_def schedule_trace_def wrapped_index_def
      second_only_def never_def upt_rec)

section \<open>The worker loop\<close>

lemma take_front_moved:
  assumes "queue q = front # rest" and "payload front"
  shows "take_front debug q work_item_default = Inr (True, q\<lparr>queue := rest\<rparr>, moved_to front)"
  using assms move_ctor_moved [OF assms(2), of debug]
  by (simp add: take_front_def move_ctor_def work_item_default_def)

lemma tq_try_pop_default:
  assumes "list_all payload (queue q)"
  shows "tq_try_pop debug locked q work_item_default =
           (if locked \<and> queue q \<noteq> []
            then Inr (True, q\<lparr>queue := tl (queue q)\<rparr>, moved_to (hd (queue q)))
            else Inr (False, q, work_item_default))"
proof (cases "queue q")
  case Nil
  then show ?thesis by (simp add: tq_try_pop_def)
next
  case (Cons front rest)
  with assms have "payload front" by simp
  from take_front_moved [OF Cons this] Cons show ?thesis
    by (simp add: tq_try_pop_def)
qed

lemma unat_times_8:
  assumes "8 * unat (n :: 32 word) < 2 ^ 31"
  shows "unat (n * 8) = 8 * unat n"
proof -
  have "unat (n * 8) = (unat n * 8) mod 2 ^ 32"
    by (simp add: unat_word_ariths)
  with assms show ?thesis by simp
qed

lemma loop_condition:
  assumes "8 * unat (n :: 32 word) < 2 ^ 31" and "i \<le> 8 * unat n"
  shows "((word_of_nat i :: 32 word) < n * 8) = (i < 8 * unat n)"
proof -
  from assms have "unat (word_of_nat i :: 32 word) = i"
    by (simp add: unat_of_nat)
  with unat_times_8 [OF assms(1)] show ?thesis
    by (simp add: word_less_nat_alt)
qed

lemma queue_index:
  assumes "index + i < 2 ^ 31"
  shows "unat ((word_of_nat (index + i) :: 32 word) mod n) = (index + i) mod unat n"
proof -
  have "unat (word_of_nat (index + i) :: 32 word) = (index + i) mod 2 ^ LENGTH(32)"
    by (rule unat_of_nat)
  with assms have "unat (word_of_nat (index + i) :: 32 word) = index + i"
    by simp
  then show ?thesis by (simp only: unat_mod)
qed

lemma try_pop_loop_spec:
  assumes "length qs = unat n" and "index + 8 * unat n < 2 ^ 31"
    and "list_all (\<lambda>q. list_all payload (queue q)) qs" and "i \<le> 8 * unat n"
  shows "try_pop_loop debug acq n index qs work_item_default i tr =
     (case find (hit acq qs (unat n) index) [i ..< 8 * unat n] of
        None \<Rightarrow> Inr (qs, work_item_default, tr @ failed_tries index (unat n) [i ..< 8 * unat n])
      | Some k \<Rightarrow>
          Inr (front_taken ((index + k) mod unat n) qs, front_of ((index + k) mod unat n) qs,
               tr @ failed_tries index (unat n) [i ..< k] @ [Try_pop ((index + k) mod unat n) True]))"
  using assms(4)
proof (induction "8 * unat n - i" arbitrary: i tr)
  case 0
  then have e: "i = 8 * unat n" by simp
  from assms(2) have b: "8 * unat n < 2 ^ 31" by simp
  have c: "\<not> (word_of_nat i :: 32 word) < n * 8"
    using loop_condition [OF b, of i] e by simp
  show ?case
    by (subst try_pop_loop.simps, simp only: c if_False) (simp add: e failed_tries_def)
next
  case (Suc d)
  then have lt: "i < 8 * unat n" by simp
  from assms(2) have b: "8 * unat n < 2 ^ 31" by simp
  have c: "(word_of_nat i :: 32 word) < n * 8"
    using loop_condition [OF b, of i] lt by simp
  from lt assms(2) have small: "index + i < 2 ^ 31" by simp
  then have no_ub: "\<not> INT_MAX < index + i" "\<not> INT_MAX \<le> i"
    using lt assms(2) by (simp_all add: INT_MAX_def)
  from lt have pos: "0 < unat n" by (cases "unat n = 0") simp_all
  let ?k = "(index + i) mod unat n"
  from pos assms(1) have kb: "?k < length qs" by simp
  with assms(3) have pl: "list_all payload (queue (qs ! ?k))"
    by (simp add: list_all_length)
  have u: "[i ..< 8 * unat n] = i # [Suc i ..< 8 * unat n]"
    using lt by (rule upt_conv_Cons)
  show ?case
  proof (cases "hit acq qs (unat n) index i")
    case True
    then show ?thesis
      by (subst try_pop_loop.simps, simp only: c no_ub if_True if_False queue_index [OF small])
         (simp add: tq_try_pop_default [OF pl] u hit_def
            front_taken_def front_of_def failed_tries_def)
  next
    case False
    have step: "try_pop_loop debug acq n index qs work_item_default i tr =
        try_pop_loop debug acq n index qs work_item_default (Suc i)
          (tr @ [Try_pop ?k False])"
      using False kb
      by (subst try_pop_loop.simps, simp only: c no_ub if_True if_False queue_index [OF small])
         (auto simp add: tq_try_pop_default [OF pl] hit_def)
    from Suc(2) have "d = 8 * unat n - Suc i" by simp
    moreover from lt have "Suc i \<le> 8 * unat n" by simp
    ultimately have ih: "try_pop_loop debug acq n index qs work_item_default (Suc i) (tr @ [Try_pop ?k False]) =
     (case find (hit acq qs (unat n) index) [Suc i ..< 8 * unat n] of
        None \<Rightarrow> Inr (qs, work_item_default,
                     (tr @ [Try_pop ?k False]) @ failed_tries index (unat n) [Suc i ..< 8 * unat n])
      | Some k \<Rightarrow>
          Inr (front_taken ((index + k) mod unat n) qs, front_of ((index + k) mod unat n) qs,
               (tr @ [Try_pop ?k False]) @ failed_tries index (unat n) [Suc i ..< k]
                 @ [Try_pop ((index + k) mod unat n) True]))"
      by (rule Suc(1))
    show ?thesis
    proof (cases "find (hit acq qs (unat n) index) [Suc i ..< 8 * unat n]")
      case None
      with False show ?thesis
        by (simp add: step ih u failed_tries_def)
    next
      case (Some k')
      then have "k' \<in> set [Suc i ..< 8 * unat n]"
        by (auto simp: find_Some_iff)
      then have "i < k'" by simp
      then have "[i ..< k'] = i # [Suc i ..< k']" by (rule upt_conv_Cons)
      with False Some show ?thesis
        by (simp add: step ih u failed_tries_def)
    qed
  qed
qed

lemma live_payload: "live m w \<Longrightarrow> payload w"
  by (cases "target w") (auto simp: live_def stored_def payload_def)

lemma live_moved_to: "live m w \<Longrightarrow> stored m (moved_to w) = stored m w"
  by (cases "target w") (auto simp: live_def stored_def moved_to_def is_embedded_def)

lemma call_and_destroy_live:
  assumes "stored m f = Some c"
  shows "\<exists>m'. call_and_destroy p f m tr =
            (if call_throws c then Inl Exception_thrown else Inr True, p, m', tr @ [Call_work f]) \<and>
          invocations (events_since m m') = 1 \<and>
          events_since m m' = Invoke c # (if call_throws c then [] else events_since (emit [Invoke c] m) m')"
proof (cases "target f")
  case Null
  with assms show ?thesis by (simp add: stored_def)
next
  case Embedded
  with assms show ?thesis
    by (simp add: stored_def call_and_destroy_def work_item_call_def call_callable_def
        work_item_dtor_def emit_def events_since_def)
next
  case (Heap_node a)
  with assms obtain al where "heap m a = Some (al, c)"
    by (auto simp: stored_def)
  with Heap_node show ?thesis
    by (simp add: call_and_destroy_def work_item_call_def call_callable_def
        work_item_dtor_def destroy_dealloc_def emit_def events_since_def)
qed

lemma interfere_live:
  "list_all (live m) (queue q) \<Longrightarrow> pushes_live m s \<Longrightarrow> list_all (live m) (queue (interfere s q))"
  by (cases s; cases "queue q") (simp_all add: tq_done_def)

lemma fold_interfere_live:
  "list_all (live m) (queue q) \<Longrightarrow> list_all (pushes_live m) steps
   \<Longrightarrow> list_all (live m) (queue (fold interfere steps q))"
  by (induction steps arbitrary: q) (simp_all add: interfere_live)

lemma wait_ready_live:
  "wait_ready env q = Some q1 \<Longrightarrow> list_all (live m) (queue q)
   \<Longrightarrow> list_all (list_all (pushes_live m)) env \<Longrightarrow> list_all (live m) (queue q1)"
proof (induction env arbitrary: q)
  case Nil
  then show ?case by (simp split: if_splits)
next
  case (Cons steps env)
  show ?case
  proof (cases "queue q = [] \<and> \<not> is_done q")
    case True
    with Cons.prems have w: "wait_ready env (fold interfere steps q) = Some q1" by simp
    from Cons.prems have "list_all (live m) (queue (fold interfere steps q))"
      by (simp add: fold_interfere_live)
    from Cons.IH [OF w this] Cons.prems(3) show ?thesis by simp
  next
    case False
    with Cons.prems show ?thesis by auto
  qed
qed

lemma tq_pop_default:
  assumes "list_all (live m) (queue q)" and "list_all (list_all (pushes_live m)) env"
  shows "tq_pop debug env q work_item_default =
           (case wait_ready env q of
              None \<Rightarrow> None
            | Some q1 \<Rightarrow>
                Some (Inr (if queue q1 = [] then (False, q1, work_item_default)
                           else (True, q1\<lparr>queue := tl (queue q1)\<rparr>, moved_to (hd (queue q1))))))"
proof (cases "wait_ready env q")
  case None
  then show ?thesis by (simp add: tq_pop_def)
next
  case (Some q1)
  from wait_ready_live [OF Some assms] have l: "list_all (live m) (queue q1)" .
  show ?thesis
  proof (cases "queue q1")
    case Nil
    with Some show ?thesis by (simp add: tq_pop_def)
  next
    case (Cons front rest)
    with l have "live m front" by simp
    then have "payload front" by (rule live_payload)
    from take_front_moved [OF Cons this, of debug] Some Cons show ?thesis
      by (simp add: tq_pop_def)
  qed
qed

lemma run_body_break:
  "run_body debug acq env index p m = Some (Inr False, p', m', tr) \<Longrightarrow>
     last_call tr = Some (Pop index False)"
  by (auto simp: run_body_def call_and_destroy_def last_call_def
      split: sum.splits prod.splits if_splits option.splits)

lemma run_exit:
  "run debug sched index p m tr = Some (Inr (), p', m', tr') \<Longrightarrow>
     last_call tr' = Some (Pop index False)"
proof (induction sched arbitrary: p m tr)
  case Nil
  then show ?case by simp
next
  case (Cons s sched)
  obtain before acq env where s: "s = (before, acq, env)" by (cases s)
  let ?p = "p\<lparr>queues := fold interfere_at before (queues p)\<rparr>"
  show ?case
  proof (cases "run_body debug acq env index ?p m")
    case None
    with Cons.prems s show ?thesis by simp
  next
    case (Some res)
    obtain r p1 m1 tr1 where res: "res = (r, p1, m1, tr1)" by (cases res)
    show ?thesis
    proof (cases r)
      case (Inl e)
      with Cons.prems s Some res show ?thesis by simp
    next
      case (Inr continue)
      show ?thesis
      proof (cases continue)
        case True
        with Cons.prems s Some res Inr have "run debug sched index p1 m1 (tr @ tr1) = Some (Inr (), p', m', tr')"
          by simp
        then show ?thesis by (rule Cons.IH)
      next
        case False
        with Some res Inr have "run_body debug acq env index ?p m = Some (Inr False, p1, m1, tr1)"
          by simp
        then have "last_call tr1 = Some (Pop index False)"
          by (rule run_body_break)
        moreover from False Cons.prems s Some res Inr have "tr' = tr @ tr1" by simp
        ultimately show ?thesis
          by (auto simp: last_call_def split: if_splits)
      qed
    qed
  qed
qed

lemma run_body_spec:
  assumes "index < unat (num_threads p)" and "length (queues p) = unat (num_threads p)"
    and "index + 8 * unat (num_threads p) < 2 ^ 31"
    and "list_all (\<lambda>q. list_all (live m) (queue q)) (queues p)"
    and "list_all (list_all (pushes_live m)) env"
  shows "case find (hit acq (queues p) (unat (num_threads p)) index) [0 ..< 8 * unat (num_threads p)] of
           Some k \<Rightarrow>
             (\<exists>c m'. stored m (front_of ((index + k) mod unat (num_threads p)) (queues p)) = Some c \<and>
                run_body debug acq env index p m =
                Some (if call_throws c then Inl Exception_thrown else Inr True,
                      p\<lparr>queues := front_taken ((index + k) mod unat (num_threads p)) (queues p)\<rparr>, m',
                      failed_tries index (unat (num_threads p)) [0 ..< k] @
                        [Try_pop ((index + k) mod unat (num_threads p)) True,
                         Call_work (front_of ((index + k) mod unat (num_threads p)) (queues p))]) \<and>
                invocations (events_since m m') = 1)
         | None \<Rightarrow>
             (case wait_ready env (queues p ! index) of
                None \<Rightarrow> run_body debug acq env index p m = None
              | Some q1 \<Rightarrow>
                  if queue q1 = []
                  then run_body debug acq env index p m =
                         Some (Inr False, p\<lparr>queues := (queues p)[index := q1]\<rparr>, m,
                               failed_tries index (unat (num_threads p)) [0 ..< 8 * unat (num_threads p)] @
                                 [Pop index False])
                  else (\<exists>c m'. stored m (moved_to (hd (queue q1))) = Some c \<and>
                          run_body debug acq env index p m =
                          Some (if call_throws c then Inl Exception_thrown else Inr True,
                                p\<lparr>queues := (queues p)[index := q1\<lparr>queue := tl (queue q1)\<rparr>]\<rparr>, m',
                                failed_tries index (unat (num_threads p)) [0 ..< 8 * unat (num_threads p)] @
                                  [Pop index True, Call_work (moved_to (hd (queue q1)))]) \<and>
                          invocations (events_since m m') = 1))"
proof -
  let ?n = "num_threads p" and ?qs = "queues p"
  let ?N = "unat ?n"
  have pl: "list_all (\<lambda>q. list_all payload (queue q)) ?qs"
    using assms(4) by (auto simp: list_all_iff intro: live_payload)
  have loop: "try_pop_loop debug acq ?n index ?qs work_item_default 0 [] =
     (case find (hit acq ?qs ?N index) [0 ..< 8 * ?N] of
        None \<Rightarrow> Inr (?qs, work_item_default, failed_tries index ?N [0 ..< 8 * ?N])
      | Some k \<Rightarrow>
          Inr (front_taken ((index + k) mod ?N) ?qs, front_of ((index + k) mod ?N) ?qs,
               failed_tries index ?N [0 ..< k] @ [Try_pop ((index + k) mod ?N) True]))"
    using try_pop_loop_spec [OF assms(2) assms(3) pl, of 0 debug acq "[]"]
    by (simp cong: option.case_cong)
  show ?thesis
  proof (cases "find (hit acq ?qs ?N index) [0 ..< 8 * ?N]")
    case (Some k)
    then have h: "hit acq ?qs ?N index k" by (auto simp: find_Some_iff)
    let ?k = "(index + k) mod ?N"
    from assms(1,2) have kb: "?k < length ?qs" by simp
    with assms(4) have "list_all (live m) (queue (?qs ! ?k))"
      by (simp add: list_all_length)
    moreover from h have "queue (?qs ! ?k) \<noteq> []" by (simp add: hit_def)
    ultimately have lv: "live m (hd (queue (?qs ! ?k)))"
      by (cases "queue (?qs ! ?k)") simp_all
    then obtain c where c: "stored m (front_of ?k ?qs) = Some c"
      using live_moved_to [OF lv] by (auto simp: front_of_def live_def)
    then have ob: "operator_bool (front_of ?k ?qs)"
      by (auto simp: stored_def operator_bool_def)
    from call_and_destroy_live [OF c, of "p\<lparr>queues := front_taken ?k ?qs\<rparr>"
        "failed_tries index ?N [0 ..< k] @ [Try_pop ?k True]"]
    obtain m' where cd: "call_and_destroy (p\<lparr>queues := front_taken ?k ?qs\<rparr>) (front_of ?k ?qs) m
            (failed_tries index ?N [0 ..< k] @ [Try_pop ?k True]) =
          (if call_throws c then Inl Exception_thrown else Inr True, p\<lparr>queues := front_taken ?k ?qs\<rparr>, m',
           (failed_tries index ?N [0 ..< k] @ [Try_pop ?k True]) @ [Call_work (front_of ?k ?qs)])"
      and inv: "invocations (events_since m m') = 1"
      by blast
    from Some loop ob cd inv c show ?thesis
      by (simp add: run_body_def)
  next
    case None
    have nb: "\<not> operator_bool work_item_default"
      by (simp add: operator_bool_def work_item_default_def)
    from assms(1,2,4) have lq: "list_all (live m) (queue (?qs ! index))"
      by (simp add: list_all_length)
    note pop = tq_pop_default [OF lq assms(5), of debug]
    show ?thesis
    proof (cases "wait_ready env (?qs ! index)")
      case wn: None
      with None loop nb pop show ?thesis
        by (simp add: run_body_def)
    next
      case (Some q1)
      show ?thesis
      proof (cases "queue q1 = []")
        case True
        with None Some loop nb pop show ?thesis
          by (simp add: run_body_def work_item_dtor_def work_item_default_def)
      next
        case False
        from wait_ready_live [OF Some lq assms(5)] False have lv: "live m (hd (queue q1))"
          by (cases "queue q1") simp_all
        then obtain c where c: "stored m (moved_to (hd (queue q1))) = Some c"
          using live_moved_to [OF lv] by (auto simp: live_def)
        from call_and_destroy_live [OF c, of "p\<lparr>queues := ?qs[index := q1\<lparr>queue := tl (queue q1)\<rparr>]\<rparr>"
            "failed_tries index ?N [0 ..< 8 * ?N] @ [Pop index True]"]
        obtain m' where cd: "call_and_destroy (p\<lparr>queues := ?qs[index := q1\<lparr>queue := tl (queue q1)\<rparr>]\<rparr>)
              (moved_to (hd (queue q1))) m (failed_tries index ?N [0 ..< 8 * ?N] @ [Pop index True]) =
            (if call_throws c then Inl Exception_thrown else Inr True,
             p\<lparr>queues := ?qs[index := q1\<lparr>queue := tl (queue q1)\<rparr>]\<rparr>, m',
             (failed_tries index ?N [0 ..< 8 * ?N] @ [Pop index True]) @ [Call_work (moved_to (hd (queue q1)))])"
          and inv: "invocations (events_since m m') = 1"
          by blast
        from False None Some loop nb pop cd inv c show ?thesis
          by (simp add: run_body_def)
      qed
    qed
  qed
qed

text \<open>
  C2, as the specification states it: the worker loop is left exactly when the blocking
  \<^verbatim>\<open>pop\<close> returns false, and for every \<open>N\<close> a turn starts with non-blocking attempts on
  the worker's own queue. A payload that throws ends the loop with no blocking \<^verbatim>\<open>pop\<close>
  at all; and with \<open>N = 2^29\<close> the bound \<^verbatim>\<open>_num_threads * rounds\<close> wraps to 0, so that
  worker 0, its own queue holding a payload and its try-lock free, makes no attempt and
  takes the payload with the blocking \<^verbatim>\<open>pop\<close>.
\<close>

theorem worker_loop_counterexample:
  "run_calls (run True [([], always, [])] 0 throwing_pool machine_init [])
     = Some (Inl Exception_thrown,
             [Try_pop 0 False, Try_pop 1 True,
              Call_work \<lparr>buffer = Some tracked_throwing_callable, target = Embedded\<rparr>]) \<and>
   length (queues huge_pool) = unat (num_threads huge_pool) \<and>
   always 0 \<and> queue (queues huge_pool ! 0) \<noteq> [] \<and>
   calls_of (run_body True always [] 0 huge_pool machine_init)
     = Some (Inr True, [Pop 0 True, Call_work \<lparr>buffer = Some tracked_callable, target = Embedded\<rparr>])"
proof -
  have a: "run_calls (run True [([], always, [])] 0 throwing_pool machine_init [])
     = Some (Inl Exception_thrown,
             [Try_pop 0 False, Try_pop 1 True,
              Call_work \<lparr>buffer = Some tracked_throwing_callable, target = Embedded\<rparr>])"
    by (simp add: run_calls_def run_body_def throwing_pool_def try_pop_loop.simps INT_MAX_def
        tq_try_pop_def take_front_def move_assign_def work_item_default_def is_embedded_def
        task_queue_init_def operator_bool_def call_and_destroy_def work_item_call_def
        call_callable_def tracked_throwing_callable_def emit_def always_def)
  have n: "num_threads huge_pool = 0x20000000"
    and q: "queues huge_pool = replicate 536870912
                 \<lparr>queue = [\<lparr>buffer = Some tracked_callable, target = Embedded\<rparr>], is_done = False,
                  ready = [Notify_one]\<rparr>"
    by (simp_all add: huge_pool_def)
  have l: "try_pop_loop True always (num_threads huge_pool) 0 (queues huge_pool) work_item_default 0 []
             = Inr (queues huge_pool, work_item_default, [])"
    by (subst try_pop_loop.simps) (simp add: n)
  have b: "calls_of (run_body True always [] 0 huge_pool machine_init)
     = Some (Inr True, [Pop 0 True, Call_work \<lparr>buffer = Some tracked_callable, target = Embedded\<rparr>])"
    by (simp add: calls_of_def run_body_def l)
       (simp add: q tq_pop_def take_front_def move_assign_def work_item_default_def is_embedded_def
          operator_bool_def call_and_destroy_def work_item_call_def call_callable_def
          tracked_callable_def work_item_dtor_def emit_def)
  show ?thesis
    using a b by (simp add: n q always_def)
qed


text \<open>
  C2, amended. For worker \<open>index\<close> of a pool of \<open>N\<close> queues with \<open>index + 8 N < 2^31\<close>
  (the counter of the try loop is an \<^verbatim>\<open>int\<close>, its bound an \<^verbatim>\<open>unsigned\<close> product), every
  queued payload holding a function object: each turn of the loop makes the attempts
  \<open>j = 0, 1, 2, ...\<close> of \<^verbatim>\<open>try_pop\<close> on the queues \<open>(index + j) mod N\<close>, at most \<open>8 N\<close>,
  and stops them at the first that succeeds. Only when all \<open>8 N\<close> failed does it call
  the blocking \<^verbatim>\<open>pop\<close> on queue \<open>index\<close>; while that does not return, neither does the
  worker. The loop is left by its \<^verbatim>\<open>break\<close> exactly when that \<^verbatim>\<open>pop\<close> returns false, and
  the worker then returns. A payload obtained either way is called exactly once in the
  turn; when it returns the loop goes on to the next turn from the state this one left,
  and when it throws the exception is not caught and leaves the loop.
\<close>

theorem worker_loop_turn:
  assumes "pb = p\<lparr>queues := fold interfere_at before (queues p)\<rparr>"
    and "index < unat (num_threads pb)" and "length (queues pb) = unat (num_threads pb)"
    and "index + 8 * unat (num_threads pb) < 2 ^ 31"
    and "list_all (\<lambda>q. list_all (live m) (queue q)) (queues pb)"
    and "list_all (list_all (pushes_live m)) env"
  shows "(case find (hit acq (queues pb) (unat (num_threads pb)) index) [0 ..< 8 * unat (num_threads pb)] of
           Some k \<Rightarrow>
             (\<exists>c m'. stored m (front_of ((index + k) mod unat (num_threads pb)) (queues pb)) = Some c \<and>
                run_body debug acq env index pb m =
                  Some (if call_throws c then Inl Exception_thrown else Inr True,
                        pb\<lparr>queues := front_taken ((index + k) mod unat (num_threads pb)) (queues pb)\<rparr>, m',
                        failed_tries index (unat (num_threads pb)) [0 ..< k] @
                          [Try_pop ((index + k) mod unat (num_threads pb)) True,
                           Call_work (front_of ((index + k) mod unat (num_threads pb)) (queues pb))]) \<and>
                invocations (events_since m m') = 1 \<and>
                run debug ((before, acq, env) # sched) index p m tr =
                  (if call_throws c
                   then Some (Inl Exception_thrown,
                              pb\<lparr>queues := front_taken ((index + k) mod unat (num_threads pb)) (queues pb)\<rparr>, m',
                              tr @ failed_tries index (unat (num_threads pb)) [0 ..< k] @
                                [Try_pop ((index + k) mod unat (num_threads pb)) True,
                                 Call_work (front_of ((index + k) mod unat (num_threads pb)) (queues pb))])
                   else run debug sched index
                          (pb\<lparr>queues := front_taken ((index + k) mod unat (num_threads pb)) (queues pb)\<rparr>) m'
                          (tr @ failed_tries index (unat (num_threads pb)) [0 ..< k] @
                             [Try_pop ((index + k) mod unat (num_threads pb)) True,
                              Call_work (front_of ((index + k) mod unat (num_threads pb)) (queues pb))])))
         | None \<Rightarrow>
             (case wait_ready env (queues pb ! index) of
                None \<Rightarrow>
                  run_body debug acq env index pb m = None \<and>
                  run debug ((before, acq, env) # sched) index p m tr = None
              | Some q1 \<Rightarrow>
                  if queue q1 = []
                  then run_body debug acq env index pb m =
                         Some (Inr False, pb\<lparr>queues := (queues pb)[index := q1]\<rparr>, m,
                               failed_tries index (unat (num_threads pb)) [0 ..< 8 * unat (num_threads pb)] @
                                 [Pop index False]) \<and>
                       run debug ((before, acq, env) # sched) index p m tr =
                         Some (Inr (), pb\<lparr>queues := (queues pb)[index := q1]\<rparr>, m,
                               tr @ failed_tries index (unat (num_threads pb)) [0 ..< 8 * unat (num_threads pb)] @
                                 [Pop index False])
                  else (\<exists>c m'. stored m (moved_to (hd (queue q1))) = Some c \<and>
                          run_body debug acq env index pb m =
                            Some (if call_throws c then Inl Exception_thrown else Inr True,
                                  pb\<lparr>queues := (queues pb)[index := q1\<lparr>queue := tl (queue q1)\<rparr>]\<rparr>, m',
                                  failed_tries index (unat (num_threads pb)) [0 ..< 8 * unat (num_threads pb)] @
                                    [Pop index True, Call_work (moved_to (hd (queue q1)))]) \<and>
                          invocations (events_since m m') = 1 \<and>
                          run debug ((before, acq, env) # sched) index p m tr =
                            (if call_throws c
                             then Some (Inl Exception_thrown,
                                        pb\<lparr>queues := (queues pb)[index := q1\<lparr>queue := tl (queue q1)\<rparr>]\<rparr>, m',
                                        tr @ failed_tries index (unat (num_threads pb))
                                               [0 ..< 8 * unat (num_threads pb)] @
                                          [Pop index True, Call_work (moved_to (hd (queue q1)))])
                             else run debug sched index
                                    (pb\<lparr>queues := (queues pb)[index := q1\<lparr>queue := tl (queue q1)\<rparr>]\<rparr>) m'
                                    (tr @ failed_tries index (unat (num_threads pb))
                                            [0 ..< 8 * unat (num_threads pb)] @
                                       [Pop index True, Call_work (moved_to (hd (queue q1)))]))))) \<and>
         run debug [] index p m tr = None \<and>
         (run debug sched0 index p0 m0 tr0 = Some (Inr (), p1, m1, tr1) \<longrightarrow>
            last_call tr1 = Some (Pop index False))"
proof (intro conjI)
  note rb = run_body_spec [OF assms(2-6), where acq = acq and debug = debug]
  show "(case find (hit acq (queues pb) (unat (num_threads pb)) index) [0 ..< 8 * unat (num_threads pb)] of
           Some k \<Rightarrow>
             (\<exists>c m'. stored m (front_of ((index + k) mod unat (num_threads pb)) (queues pb)) = Some c \<and>
                run_body debug acq env index pb m =
                  Some (if call_throws c then Inl Exception_thrown else Inr True,
                        pb\<lparr>queues := front_taken ((index + k) mod unat (num_threads pb)) (queues pb)\<rparr>, m',
                        failed_tries index (unat (num_threads pb)) [0 ..< k] @
                          [Try_pop ((index + k) mod unat (num_threads pb)) True,
                           Call_work (front_of ((index + k) mod unat (num_threads pb)) (queues pb))]) \<and>
                invocations (events_since m m') = 1 \<and>
                run debug ((before, acq, env) # sched) index p m tr =
                  (if call_throws c
                   then Some (Inl Exception_thrown,
                              pb\<lparr>queues := front_taken ((index + k) mod unat (num_threads pb)) (queues pb)\<rparr>, m',
                              tr @ failed_tries index (unat (num_threads pb)) [0 ..< k] @
                                [Try_pop ((index + k) mod unat (num_threads pb)) True,
                                 Call_work (front_of ((index + k) mod unat (num_threads pb)) (queues pb))])
                   else run debug sched index
                          (pb\<lparr>queues := front_taken ((index + k) mod unat (num_threads pb)) (queues pb)\<rparr>) m'
                          (tr @ failed_tries index (unat (num_threads pb)) [0 ..< k] @
                             [Try_pop ((index + k) mod unat (num_threads pb)) True,
                              Call_work (front_of ((index + k) mod unat (num_threads pb)) (queues pb))])))
         | None \<Rightarrow>
             (case wait_ready env (queues pb ! index) of
                None \<Rightarrow>
                  run_body debug acq env index pb m = None \<and>
                  run debug ((before, acq, env) # sched) index p m tr = None
              | Some q1 \<Rightarrow>
                  if queue q1 = []
                  then run_body debug acq env index pb m =
                         Some (Inr False, pb\<lparr>queues := (queues pb)[index := q1]\<rparr>, m,
                               failed_tries index (unat (num_threads pb)) [0 ..< 8 * unat (num_threads pb)] @
                                 [Pop index False]) \<and>
                       run debug ((before, acq, env) # sched) index p m tr =
                         Some (Inr (), pb\<lparr>queues := (queues pb)[index := q1]\<rparr>, m,
                               tr @ failed_tries index (unat (num_threads pb)) [0 ..< 8 * unat (num_threads pb)] @
                                 [Pop index False])
                  else (\<exists>c m'. stored m (moved_to (hd (queue q1))) = Some c \<and>
                          run_body debug acq env index pb m =
                            Some (if call_throws c then Inl Exception_thrown else Inr True,
                                  pb\<lparr>queues := (queues pb)[index := q1\<lparr>queue := tl (queue q1)\<rparr>]\<rparr>, m',
                                  failed_tries index (unat (num_threads pb)) [0 ..< 8 * unat (num_threads pb)] @
                                    [Pop index True, Call_work (moved_to (hd (queue q1)))]) \<and>
                          invocations (events_since m m') = 1 \<and>
                          run debug ((before, acq, env) # sched) index p m tr =
                            (if call_throws c
                             then Some (Inl Exception_thrown,
                                        pb\<lparr>queues := (queues pb)[index := q1\<lparr>queue := tl (queue q1)\<rparr>]\<rparr>, m',
                                        tr @ failed_tries index (unat (num_threads pb))
                                               [0 ..< 8 * unat (num_threads pb)] @
                                          [Pop index True, Call_work (moved_to (hd (queue q1)))])
                             else run debug sched index
                                    (pb\<lparr>queues := (queues pb)[index := q1\<lparr>queue := tl (queue q1)\<rparr>]\<rparr>) m'
                                    (tr @ failed_tries index (unat (num_threads pb))
                                            [0 ..< 8 * unat (num_threads pb)] @
                                       [Pop index True, Call_work (moved_to (hd (queue q1)))])))))"
  proof (cases "find (hit acq (queues pb) (unat (num_threads pb)) index) [0 ..< 8 * unat (num_threads pb)]")
    case (Some k)
    with rb obtain c m' where
      "stored m (front_of ((index + k) mod unat (num_threads pb)) (queues pb)) = Some c"
      "run_body debug acq env index pb m =
                  Some (if call_throws c then Inl Exception_thrown else Inr True,
                        pb\<lparr>queues := front_taken ((index + k) mod unat (num_threads pb)) (queues pb)\<rparr>, m',
                        failed_tries index (unat (num_threads pb)) [0 ..< k] @
                          [Try_pop ((index + k) mod unat (num_threads pb)) True,
                           Call_work (front_of ((index + k) mod unat (num_threads pb)) (queues pb))])"
      "invocations (events_since m m') = 1"
      by auto
    with Some show ?thesis
      by (auto simp: assms(1) [symmetric])
  next
    case None
    show ?thesis
    proof (cases "wait_ready env (queues pb ! index)")
      case wn: None
      with None rb show ?thesis
        by (simp add: assms(1) [symmetric])
    next
      case (Some q1)
      show ?thesis
      proof (cases "queue q1 = []")
        case True
        with None Some rb show ?thesis
          by (simp add: assms(1) [symmetric])
      next
        case False
        with None Some rb obtain c m' where
          "stored m (moved_to (hd (queue q1))) = Some c"
          "run_body debug acq env index pb m =
                            Some (if call_throws c then Inl Exception_thrown else Inr True,
                                  pb\<lparr>queues := (queues pb)[index := q1\<lparr>queue := tl (queue q1)\<rparr>]\<rparr>, m',
                                  failed_tries index (unat (num_threads pb)) [0 ..< 8 * unat (num_threads pb)] @
                                    [Pop index True, Call_work (moved_to (hd (queue q1)))])"
          "invocations (events_since m m') = 1"
          by auto
        with None Some False show ?thesis
          by (auto simp: assms(1) [symmetric])
      qed
    qed
  qed
next
  show "run debug [] index p m tr = None" by simp
next
  show "run debug sched0 index p0 m0 tr0 = Some (Inr (), p1, m1, tr1) \<longrightarrow>
            last_call tr1 = Some (Pop index False)"
    using run_exit by blast
qed


theorem worker_loop_turn_witness:
  "two_worker_pool = two_worker_pool\<lparr>queues := fold interfere_at [] (queues two_worker_pool)\<rparr> \<and>
   (0 :: nat) < unat (num_threads two_worker_pool) \<and>
   length (queues two_worker_pool) = unat (num_threads two_worker_pool) \<and>
   (0 :: nat) + 8 * unat (num_threads two_worker_pool) < 2 ^ 31 \<and>
   list_all (\<lambda>q. list_all (live machine_init) (queue q)) (queues two_worker_pool) \<and>
   list_all (list_all (pushes_live machine_init)) [] \<and>
   calls_of (run_body True always [] 0 two_worker_pool machine_init)
     = Some (Inr True,
             [Try_pop 0 False, Try_pop 1 True,
              Call_work \<lparr>buffer = Some tracked_callable, target = Embedded\<rparr>]) \<and>
   run_calls (run True [([], always, []), ([], always, [[Other_done]])] 0 two_worker_pool machine_init [])
     = Some (Inr (),
             [Try_pop 0 False, Try_pop 1 True,
              Call_work \<lparr>buffer = Some tracked_callable, target = Embedded\<rparr>] @
             failed_tries 0 2 [0 ..< 16] @ [Pop 0 False])"
proof -
  have h: "two_worker_pool = two_worker_pool\<lparr>queues := fold interfere_at [] (queues two_worker_pool)\<rparr>"
    "(0 :: nat) < unat (num_threads two_worker_pool)"
    "length (queues two_worker_pool) = unat (num_threads two_worker_pool)"
    "(0 :: nat) + 8 * unat (num_threads two_worker_pool) < 2 ^ 31"
    "list_all (\<lambda>q. list_all (live machine_init) (queue q)) (queues two_worker_pool)"
    "list_all (list_all (pushes_live machine_init)) []"
    by (simp_all add: two_worker_pool_def task_queue_init_def live_def stored_def)
  have c: "calls_of (run_body True always [] 0 two_worker_pool machine_init)
     = Some (Inr True,
             [Try_pop 0 False, Try_pop 1 True,
              Call_work \<lparr>buffer = Some tracked_callable, target = Embedded\<rparr>])"
    by (simp add: calls_of_def run_body_def two_worker_pool_def try_pop_loop.simps INT_MAX_def
        tq_try_pop_def take_front_def move_assign_def work_item_default_def is_embedded_def
        task_queue_init_def operator_bool_def call_and_destroy_def work_item_call_def
        call_callable_def tracked_callable_def work_item_dtor_def emit_def always_def)
  have r: "run_calls (run True [([], always, []), ([], always, [[Other_done]])] 0 two_worker_pool machine_init [])
     = Some (Inr (),
             [Try_pop 0 False, Try_pop 1 True,
              Call_work \<lparr>buffer = Some tracked_callable, target = Embedded\<rparr>] @
             failed_tries 0 2 [0 ..< 16] @ [Pop 0 False])"
    by (simp add: run_calls_def run_body_def two_worker_pool_def try_pop_loop.simps INT_MAX_def
        tq_try_pop_def take_front_def move_assign_def work_item_default_def is_embedded_def
        task_queue_init_def operator_bool_def call_and_destroy_def work_item_call_def
        call_callable_def tracked_callable_def work_item_dtor_def emit_def always_def
        tq_pop_def tq_done_def failed_tries_def upt_rec)
  from worker_loop_turn [OF h, where acq = always and debug = True
      and sched = "[([], always, [[Other_done]])]" and tr = "[]"] c r h
  show ?thesis
    by simp
qed

section \<open>The C callback packager\<close>

lemma object_of_type_of: "object_of (type_of f) (repr f) = f"
  by (simp add: object_of_def type_of_def)

lemma converter_aligned: "align_of t dvd aligned_to (converter t bs)"
  by (simp add: converter_def)

lemma invoke_fn_elided:
  "size_of t \<le> length bs \<Longrightarrow>
   invoke_fn (Fn_elided t) (Bits bs) m = call_callable (object_of t (take (size_of t) bs)) m"
  by (simp add: invoke_fn_def call_in_place_def converter_def reconstruct_def)

text \<open>
  C7. For a trivially copyable function object no larger than a pointer, packaging
  allocates nothing (the machine is unchanged), and the data value is the pointer whose
  leading bytes are the function object's. The function pointer has only the type of
  the function object: called with a data value, it copies the bytes of that value to a
  local array aligned for the type, and calls the object of the type that has the
  leading bytes of the array. With the data value of the handle that object is the
  original, byte for byte.
\<close>

theorem elided_round_trip:
  assumes "can_elide_alloc ptr_size f"
  shows "\<exists>bs. package_task_as_c_callback ptr_size junk alloc f m =
               (Inr \<lparr>fn = Fn_elided (type_of f), data = Data_t (Bits bs)\<rparr>, m) \<and>
          c_callback_get \<lparr>fn = Fn_elided (type_of f), data = Data_t (Bits bs)\<rparr>
            = (Fn_elided (type_of f), Bits bs) \<and>
          take (length (repr f)) bs = repr f \<and>
          (ptr_size \<le> length junk \<longrightarrow> length bs = ptr_size) \<and>
          align_of (type_of f) dvd aligned_to (converter (type_of f) bs) \<and>
          length (repr f) \<le> length (chars (converter (type_of f) bs)) \<and>
          repr (reconstruct (type_of f) (converter (type_of f) bs)) = take (length (repr f)) bs \<and>
          reconstruct (type_of f) (converter (type_of f) bs) = f \<and>
          invoke_fn (Fn_elided (type_of f)) (Bits bs) m = call_callable f m \<and>
          events (snd (invoke_fn (Fn_elided (type_of f)) (Bits bs) m)) = events m @ [Invoke f] \<and>
          (\<forall>bs'. length (repr f) \<le> length bs' \<longrightarrow>
             invoke_fn (Fn_elided (type_of f)) (Bits bs') m =
               call_callable (f\<lparr>repr := take (length (repr f)) bs'\<rparr>) m)"
proof -
  let ?bs = "take ptr_size (repr f @ drop (length (repr f)) junk)"
  let ?t = "type_of f"
  from assms have le: "length (repr f) \<le> ptr_size"
    by (simp add: can_elide_alloc_def)
  then have t: "take (length (repr f)) ?bs = repr f"
    by (simp add: min_def)
  have sz: "size_of ?t = length (repr f)"
    by (simp add: type_of_def)
  have len: "length (repr f) \<le> length ?bs"
    using le by auto
  have ob: "\<And>bs'. object_of ?t bs' = f\<lparr>repr := bs'\<rparr>"
    by (simp add: object_of_def type_of_def)
  have rr: "repr (reconstruct ?t (converter ?t ?bs)) = take (length (repr f)) ?bs"
    by (simp add: reconstruct_def converter_def object_of_def sz)
  have r: "reconstruct ?t (converter ?t ?bs) = f"
    using t object_of_type_of [of f] by (simp add: reconstruct_def converter_def sz)
  have l: "ptr_size \<le> length junk \<longrightarrow> length ?bs = ptr_size"
    using le by auto
  have i: "invoke_fn (Fn_elided ?t) (Bits ?bs) m = call_callable f m"
    using invoke_fn_elided [of ?t ?bs m] len t object_of_type_of [of f] by (simp add: sz)
  have g: "\<forall>bs'. length (repr f) \<le> length bs' \<longrightarrow>
             invoke_fn (Fn_elided ?t) (Bits bs') m =
               call_callable (f\<lparr>repr := take (length (repr f)) bs'\<rparr>) m"
    using invoke_fn_elided [of ?t _ m] by (simp add: sz ob)
  have cl: "length (repr f) \<le> length (chars (converter ?t ?bs))"
    using len by (simp add: converter_def)
  have pk: "package_task_as_c_callback ptr_size junk alloc f m =
               (Inr \<lparr>fn = Fn_elided ?t, data = Data_t (Bits ?bs)\<rparr>, m)"
    using assms by (simp add: package_task_as_c_callback_def package_impl_elided_def)
  have gt: "c_callback_get \<lparr>fn = Fn_elided ?t, data = Data_t (Bits ?bs)\<rparr> = (Fn_elided ?t, Bits ?bs)"
    by (simp add: c_callback_get_def owner_get_def)
  have ev: "events (snd (invoke_fn (Fn_elided ?t) (Bits ?bs) m)) = events m @ [Invoke f]"
    unfolding i by (simp add: call_callable_def emit_def)
  from pk gt t l converter_aligned [of ?t ?bs] cl rr r i ev g show ?thesis
    by blast
qed

theorem elided_round_trip_witness:
  "can_elide_alloc 8 check2 \<and>
   package_task_as_c_callback 8 stack_junk (User_allocator 1) check2 machine_init =
     (Inr \<lparr>fn = Fn_elided (type_of check2),
           data = Data_t (Bits [0xEF, 0xCD, 0xAB, 0x90, 0x78, 0x56, 0x34, 0x12])\<rparr>, machine_init) \<and>
   reconstruct (type_of check2)
     (converter (type_of check2) [0xEF, 0xCD, 0xAB, 0x90, 0x78, 0x56, 0x34, 0x12]) = check2 \<and>
   repr (reconstruct (type_of check2)
     (converter (type_of check2) [0x01, 0x02, 0x03, 0x04, 0x05, 0x06, 0x07, 0x08]))
     = [0x01, 0x02, 0x03, 0x04, 0x05, 0x06, 0x07, 0x08]"
proof -
  have h: "can_elide_alloc 8 check2"
    by (simp add: can_elide_alloc_def check2_def)
  have p: "package_task_as_c_callback 8 stack_junk (User_allocator 1) check2 machine_init =
     (Inr \<lparr>fn = Fn_elided (type_of check2),
           data = Data_t (Bits [0xEF, 0xCD, 0xAB, 0x90, 0x78, 0x56, 0x34, 0x12])\<rparr>, machine_init)"
    by (simp add: package_task_as_c_callback_def h package_impl_elided_def)
       (simp add: check2_def stack_junk_def)
  have q: "repr (reconstruct (type_of check2)
     (converter (type_of check2) [0x01, 0x02, 0x03, 0x04, 0x05, 0x06, 0x07, 0x08]))
     = [0x01, 0x02, 0x03, 0x04, 0x05, 0x06, 0x07, 0x08]"
    by (simp add: reconstruct_def converter_def object_of_def type_of_def check2_def)
  from elided_round_trip [OF h, of stack_junk "User_allocator 1" machine_init] p h q show ?thesis
    by auto
qed



end
